theory Spec2Isabelle
  imports Complex_Main "HOL-Library.Word"
begin

section \<open>The chunk splitter of the send module\<close>

text \<open>
  A Node \<^verbatim>\<open>Buffer\<close> is a sequence of bytes. \<^verbatim>\<open>buffer.slice(start, fin)\<close> with
  \<open>0 \<le> start\<close> clips both indices to the length of the buffer, which is what
  \<open>take\<close> and \<open>drop\<close> do.
\<close>

type_synonym buffer = "8 word list"

definition CHUNK_SIZE :: nat where
  "CHUNK_SIZE = 10 * 1024 * 1024"

definition buffer_slice :: "buffer \<Rightarrow> nat \<Rightarrow> nat \<Rightarrow> buffer" where
  "buffer_slice buffer start fin = take (fin - start) (drop start buffer)"

text \<open>
  \<^verbatim>\<open>for (let i = 0; i < buffer.length; i += CHUNK_SIZE) chunks.push(buffer.slice(i, i + CHUNK_SIZE))\<close>:
  the loop with its counter \<open>i\<close> and the array \<open>chunks\<close> built so far.
\<close>

function splitIntoChunks_loop :: "buffer \<Rightarrow> nat \<Rightarrow> buffer list \<Rightarrow> buffer list" where
  "splitIntoChunks_loop buffer i chunks =
     (if i < length buffer
      then splitIntoChunks_loop buffer (i + CHUNK_SIZE) (chunks @ [buffer_slice buffer i (i + CHUNK_SIZE)])
      else chunks)"
  by pat_completeness auto
termination
  by (relation "measure (\<lambda>(buffer, i, chunks). length buffer - i)") (auto simp: CHUNK_SIZE_def)

declare splitIntoChunks_loop.simps [simp del]

definition splitIntoChunks :: "buffer \<Rightarrow> buffer list" where
  "splitIntoChunks buffer = splitIntoChunks_loop buffer 0 []"

section \<open>JavaScript numbers\<close>

text \<open>
  A JavaScript number is \<open>NaN\<close>, an infinity, or a finite double, kept here as the
  rational it denotes. The negative zero is kept as zero: the code compares a number, adds
  1 to it and prints it, and none of these tells the two zeros apart.
\<close>

datatype jsnum = NaN | PInf | NInf | Fin rat

definition pow_int :: "rat \<Rightarrow> int \<Rightarrow> rat" where
  "pow_int b e = (if 0 \<le> e then b ^ nat e else 1 / b ^ nat (- e))"

text \<open>The number of digits of \<open>n\<close> in base \<open>b\<close>.\<close>

function digit_count :: "nat \<Rightarrow> nat \<Rightarrow> nat" where
  "digit_count b n = (if 1 < b \<and> 0 < n then Suc (digit_count b (n div b)) else 0)"
  by pat_completeness auto
termination
  by (relation "measure snd") auto

declare digit_count.simps [simp del]

text \<open>For \<open>q > 0\<close>, the integer \<open>e\<close> with \<open>b ^ e \<le> q < b ^ (e + 1)\<close>.\<close>

definition floor_log :: "nat \<Rightarrow> rat \<Rightarrow> int" where
  "floor_log b q =
     (let (a, d) = quotient_of q;
          e = int (digit_count b (nat a)) - int (digit_count b (nat d))
      in if pow_int (of_nat b) e \<le> q then e else e - 1)"

definition round_half_even :: "rat \<Rightarrow> int" where
  "round_half_even v =
     (let f = \<lfloor>v\<rfloor>; r = v - of_int f
      in if r < 1 / 2 then f else if 1 / 2 < r then f + 1 else if even f then f else f + 1)"

text \<open>
  The integers from \<open>- 2 ^ 53\<close> to \<open>2 ^ 53\<close> are doubles, and the decimal form of such a
  number is the decimal form of the integer.
\<close>

definition is_safe_integer :: "rat \<Rightarrow> bool" where
  "is_safe_integer q = (q = of_int \<lfloor>q\<rfloor> \<and> \<bar>q\<bar> \<le> 2 ^ 53)"

text \<open>
  The double nearest to a rational, ties to the even significand: 53 bits of
  significand, exponents down to the subnormal numbers, and an infinity from
  \<open>2 ^ 1024\<close> on.
\<close>

definition round_double :: "rat \<Rightarrow> jsnum" where
  "round_double q =
     (if is_safe_integer q then Fin q
      else
        (let a = \<bar>q\<bar>;
             e = max (floor_log 2 a) (- 1022);
             ulp = pow_int 2 (e - 52);
             r = of_int (round_half_even (a / ulp)) * ulp
         in if pow_int 2 1024 \<le> r then (if q < 0 then NInf else PInf)
            else Fin (if q < 0 then - r else r)))"

subsection \<open>The decimal form of a number\<close>

definition digit_char :: "nat \<Rightarrow> char" where
  "digit_char d = char_of (48 + d)"

text \<open>The decimal form of a non-negative integer.\<close>

function show_nat :: "nat \<Rightarrow> string" where
  "show_nat n = (if n < 10 then [digit_char n] else show_nat (n div 10) @ [digit_char (n mod 10)])"
  by pat_completeness auto
termination
  by (relation "measure id") auto

declare show_nat.simps [simp del]

text \<open>
  \<^verbatim>\<open>Number::toString\<close> of a positive double \<open>x\<close>: the integers \<open>k\<close>, \<open>s\<close>, \<open>n\<close> with
  \<open>s\<close> of \<open>k\<close> digits, \<open>s * 10 ^ (n - k)\<close> a decimal that converts back to \<open>x\<close>, and \<open>k\<close>
  as small as possible. For one \<open>k\<close>, the two decimals of \<open>k\<close> digits next to \<open>x\<close> are
  tried, and the one closer to \<open>x\<close> wins.
\<close>

definition candidates :: "rat \<Rightarrow> nat \<Rightarrow> (nat \<times> int) list" where
  "candidates x k =
     (let n = floor_log 10 x + 1;
          v = x / pow_int 10 (n - int k);
          lo = nat \<lfloor>v\<rfloor>;
          ok = (\<lambda>s. round_double (of_nat s * pow_int 10 (n - int k)) = Fin x);
          dist = (\<lambda>s. \<bar>of_nat s * pow_int 10 (n - int k) - x\<bar>);
          norm = (\<lambda>s. if s = 10 ^ k then (10 ^ (k - 1), n + 1) else (s, n))
      in if ok lo \<and> ok (Suc lo) then
           (if dist lo < dist (Suc lo) then [norm lo]
            else if dist (Suc lo) < dist lo then [norm (Suc lo)]
            else if even lo then [norm lo] else [norm (Suc lo)])
         else if ok lo then [norm lo]
         else if ok (Suc lo) then [norm (Suc lo)]
         else [])"

fun shortest :: "rat \<Rightarrow> nat list \<Rightarrow> nat \<times> nat \<times> int" where
  "shortest x [] = (17, nat \<lfloor>x / pow_int 10 (floor_log 10 x + 1 - 17)\<rfloor>, floor_log 10 x + 1)"
| "shortest x (k # ks) =
     (case candidates x k of [] \<Rightarrow> shortest x ks | (s, n) # _ \<Rightarrow> (k, s, n))"

definition positive_to_string :: "rat \<Rightarrow> string" where
  "positive_to_string x =
     (if is_safe_integer x then show_nat (nat \<lfloor>x\<rfloor>)
      else
        (case shortest x [1..<18] of
           (k, s, n) \<Rightarrow>
             (let ds = show_nat s;
                  expo = (\<lambda>m. (if 0 \<le> m then ''+'' else ''-'') @ show_nat (nat \<bar>m\<bar>))
              in if int k \<le> n \<and> n \<le> 21 then ds @ replicate (nat (n - int k)) CHR ''0''
                 else if 0 < n \<and> n \<le> 21 then take (nat n) ds @ ''.'' @ drop (nat n) ds
                 else if - 6 < n \<and> n \<le> 0 then ''0.'' @ replicate (nat (- n)) CHR ''0'' @ ds
                 else if k = 1 then ds @ ''e'' @ expo (n - 1)
                 else take 1 ds @ ''.'' @ drop 1 ds @ ''e'' @ expo (n - 1))))"

text \<open>The string a number becomes in a template literal or under \<^verbatim>\<open>+=\<close> on a string.\<close>

fun number_to_string :: "jsnum \<Rightarrow> string" where
  "number_to_string NaN = ''NaN''"
| "number_to_string PInf = ''Infinity''"
| "number_to_string NInf = ''-Infinity''"
| "number_to_string (Fin q) =
     (if q < 0 then ''-'' @ positive_to_string (- q) else positive_to_string q)"

subsection \<open>The number of a string\<close>

definition is_digit :: "char \<Rightarrow> bool" where
  "is_digit c = (48 \<le> (of_char c :: nat) \<and> (of_char c :: nat) \<le> 57)"

definition is_white_space :: "char \<Rightarrow> bool" where
  "is_white_space c = ((of_char c :: nat) \<in> {9, 10, 11, 12, 13, 32, 160})"

definition trim :: "string \<Rightarrow> string" where
  "trim s = rev (dropWhile is_white_space (rev (dropWhile is_white_space s)))"

definition strip_sign :: "string \<Rightarrow> string" where
  "strip_sign s =
     (case s of [] \<Rightarrow> [] | c # t \<Rightarrow> if c = CHR ''+'' \<or> c = CHR ''-'' then t else s)"

definition is_digits :: "string \<Rightarrow> bool" where
  "is_digits s = (s \<noteq> [] \<and> list_all is_digit s)"

definition digits_value :: "string \<Rightarrow> int" where
  "digits_value s = foldl (\<lambda>a c. 10 * a + (of_char c - 48)) 0 s"

text \<open>The value of an exponent part \<^verbatim>\<open>e\<close>, sign, digits; 0 when there is none.\<close>

definition exponent_value :: "string \<Rightarrow> int option" where
  "exponent_value s =
     (case s of
        [] \<Rightarrow> Some 0
      | c # t \<Rightarrow>
          if (c = CHR ''e'' \<or> c = CHR ''E'') \<and> is_digits (strip_sign t)
          then Some (if hd t = CHR ''-'' then - digits_value (strip_sign t)
                     else digits_value (strip_sign t))
          else None)"

text \<open>
  The value of an unsigned decimal literal: digits, then possibly a point and digits,
  then possibly an exponent part, with a digit before or after the point.
\<close>

definition unsigned_decimal :: "string \<Rightarrow> rat option" where
  "unsigned_decimal s =
     (let ip = takeWhile is_digit s;
          r = dropWhile is_digit s;
          fp = (case r of [] \<Rightarrow> [] | c # t \<Rightarrow> if c = CHR ''.'' then takeWhile is_digit t else []);
          r' = (case r of [] \<Rightarrow> [] | c # t \<Rightarrow> if c = CHR ''.'' then dropWhile is_digit t else r)
      in if ip = [] \<and> fp = [] then None
         else (case exponent_value r' of
                 None \<Rightarrow> None
               | Some ex \<Rightarrow>
                   Some (of_int (digits_value (ip @ fp)) * pow_int 10 (ex - int (length fp)))))"

definition radix_digit :: "nat \<Rightarrow> char \<Rightarrow> int option" where
  "radix_digit radix c =
     (let k = (of_char c :: nat) in
      if 48 \<le> k \<and> k < 48 + min radix 10 then Some (int k - 48)
      else if radix = 16 \<and> 65 \<le> k \<and> k \<le> 70 then Some (int k - 55)
      else if radix = 16 \<and> 97 \<le> k \<and> k \<le> 102 then Some (int k - 87)
      else None)"

fun radix_value :: "nat \<Rightarrow> int \<Rightarrow> string \<Rightarrow> int option" where
  "radix_value radix a [] = Some a"
| "radix_value radix a (c # cs) =
     (case radix_digit radix c of
        None \<Rightarrow> None
      | Some d \<Rightarrow> radix_value radix (int radix * a + d) cs)"

text \<open>The value of a literal with a radix prefix, which takes no sign.\<close>

definition radix_literal :: "string \<Rightarrow> int option" where
  "radix_literal s =
     (case s of
        z # x # t \<Rightarrow>
          if z = CHR ''0'' \<and> t \<noteq> [] then
            (if x = CHR ''b'' \<or> x = CHR ''B'' then radix_value 2 0 t
             else if x = CHR ''o'' \<or> x = CHR ''O'' then radix_value 8 0 t
             else if x = CHR ''x'' \<or> x = CHR ''X'' then radix_value 16 0 t
             else None)
          else None
      | _ \<Rightarrow> None)"

text \<open>
  \<^verbatim>\<open>Number(str)\<close>: white space is trimmed; the empty string is 0; a numeric literal is
  the double nearest to its value; anything else is \<open>NaN\<close>.
\<close>

definition Number_js :: "string \<Rightarrow> jsnum" where
  "Number_js str =
     (let s = trim str;
          u = strip_sign s;
          negative = (s \<noteq> [] \<and> hd s = CHR ''-'')
      in if s = [] then Fin 0
         else if u = ''Infinity'' then (if negative then NInf else PInf)
         else (case unsigned_decimal u of
                 Some q \<Rightarrow> round_double (if negative then - q else q)
               | None \<Rightarrow>
                   (case radix_literal s of
                      Some n \<Rightarrow> round_double (of_int n)
                    | None \<Rightarrow> NaN)))"

text \<open>\<^verbatim>\<open>a < b\<close> on two numbers: false as soon as one of them is \<open>NaN\<close>.\<close>

fun js_less :: "jsnum \<Rightarrow> jsnum \<Rightarrow> bool" where
  "js_less (Fin a) (Fin b) = (a < b)"
| "js_less (Fin a) PInf = True"
| "js_less NInf (Fin b) = True"
| "js_less NInf PInf = True"
| "js_less a b = False"

text \<open>\<^verbatim>\<open>a + 1\<close> on a number.\<close>

fun js_succ :: "jsnum \<Rightarrow> jsnum" where
  "js_succ (Fin q) = round_double (q + 1)"
| "js_succ a = a"

text \<open>\<^verbatim>\<open>s.split(":")\<close>, for any separator character.\<close>

fun split_on :: "char \<Rightarrow> string \<Rightarrow> string list" where
  "split_on sep [] = [[]]"
| "split_on sep (c # cs) =
     (if c = sep then [] # split_on sep cs
      else (case split_on sep cs of [] \<Rightarrow> [[c]] | f # fs \<Rightarrow> (c # f) # fs))"

text \<open>
  \<^verbatim>\<open>const [currentChunk, totalChunks] = chunkRange.split(":").map(Number)\<close>. A field
  that is missing leaves its variable \<^verbatim>\<open>undefined\<close>, which \<^verbatim>\<open><\<close> converts to
  \<open>NaN\<close>.
\<close>

definition chunk_range_fields :: "string \<Rightarrow> jsnum \<times> jsnum" where
  "chunk_range_fields chunkRange =
     (let fields = map Number_js (split_on CHR '':'' chunkRange) in
      (case fields of [] \<Rightarrow> NaN | c # _ \<Rightarrow> c,
       case drop 1 fields of [] \<Rightarrow> NaN | t # _ \<Rightarrow> t))"

section \<open>JavaScript values\<close>

text \<open>
  The values a reply body and the message identifier can hold: \<^verbatim>\<open>undefined\<close>,
  \<^verbatim>\<open>null\<close>, a boolean, a number, a string, an array, or an object (a parsed JSON
  body) with its own properties, each name once.
\<close>

datatype js_value =
    JUndefined
  | JNull
  | JBool bool
  | JNum jsnum
  | JStr string
  | JArr "js_value list"
  | JObj "(string \<times> js_value) list"

text \<open>\<^verbatim>\<open>if (v)\<close>: the truthiness of a value.\<close>

fun truthy :: "js_value \<Rightarrow> bool" where
  "truthy JUndefined = False"
| "truthy JNull = False"
| "truthy (JBool b) = b"
| "truthy (JNum x) = (x \<noteq> NaN \<and> x \<noteq> Fin 0)"
| "truthy (JStr s) = (s \<noteq> [])"
| "truthy (JArr xs) = True"
| "truthy (JObj props) = True"

section \<open>Requests, replies and the world an operation runs in\<close>

record response =
  status :: nat
  statusText :: string
  data :: js_value
  headers :: "string \<rightharpoonup> string"

text \<open>
  What the \<^verbatim>\<open>catch\<close> blocks can see of an error: an axios error with a
  \<^verbatim>\<open>response\<close> (the server answered with an error status), an axios error
  with a \<^verbatim>\<open>request\<close> only (no response was received), or any other error with
  its message (the request could not be set up, or a \<^verbatim>\<open>TypeError\<close>).
\<close>

datatype js_error = HttpError response | NoResponse | OtherError string

text \<open>
  The string a value becomes in a template literal or under \<^verbatim>\<open>+=\<close> on a string.
  An object parsed from JSON has no callable property of its own: with an own property
  \<^verbatim>\<open>toString\<close> the conversion finds no method that gives a primitive and throws a
  \<^verbatim>\<open>TypeError\<close>; without one it is \<^verbatim>\<open>Object.prototype.toString\<close>. An array is
  joined with commas, \<^verbatim>\<open>null\<close> and \<^verbatim>\<open>undefined\<close> elements giving nothing.
\<close>

fun to_string :: "js_value \<Rightarrow> js_error + string"
  and join_elements :: "js_value list \<Rightarrow> js_error + string" where
  "to_string JUndefined = Inr ''undefined''"
| "to_string JNull = Inr ''null''"
| "to_string (JBool b) = Inr (if b then ''true'' else ''false'')"
| "to_string (JNum x) = Inr (number_to_string x)"
| "to_string (JStr s) = Inr s"
| "to_string (JArr xs) = join_elements xs"
| "to_string (JObj props) =
     (if map_of props ''toString'' \<noteq> None
      then Inl (OtherError ''Cannot convert object to primitive value'')
      else Inr ''[object Object]'')"
| "join_elements [] = Inr []"
| "join_elements (x # xs) =
     (case (if x = JNull \<or> x = JUndefined then Inr [] else to_string x) of
        Inl error \<Rightarrow> Inl error
      | Inr s \<Rightarrow>
          if xs = [] then Inr s
          else (case join_elements xs of
                  Inl error \<Rightarrow> Inl error
                | Inr t \<Rightarrow> Inr (s @ '','' @ t)))"

text \<open>What \<^verbatim>\<open>await axios.get(...)\<close> or \<^verbatim>\<open>await axios.post(...)\<close> does: it returns a response or throws.\<close>

datatype reply = Responded response | Failed js_error

datatype agent = HttpsAgent nat

record config =
  cfg_headers :: "string \<rightharpoonup> string"
  httpsAgent :: "agent option"
  setTimeout :: "nat option"

text \<open>
  zlib is not part of the repository: the bytes \<^verbatim>\<open>zlib.gzip\<close> makes of a chunk are
  kept as the term \<open>Gzip chunk\<close>.
\<close>

datatype gz = Gzip buffer

datatype request =
    Post (req_url: string) gz (req_config: config)
  | Get (req_url: string) (req_config: config)

datatype log_entry = LogError string | ConsoleError string | ConsoleErrorObject js_error

text \<open>
  The effects of an operation: the requests issued so far, in order, the number of times
  \<^verbatim>\<open>generateHeaders\<close> has been invoked, and the lines written to the error log and
  to the console (\<^verbatim>\<open>log.debug\<close> lines are not kept).
\<close>

record world =
  issued :: "request list"
  calls :: nat
  logged :: "log_entry list"

text \<open>
  How an operation ends: it returns a value; it returns the error it caught; its promise
  is rejected with an error nobody caught; it ends the process with
  \<^verbatim>\<open>process.exit(code)\<close>; or it is still waiting for a reply that the replies given
  do not contain.
\<close>

datatype 'a outcome =
    Returned 'a
  | ReturnedError js_error
  | Rejected js_error
  | Exited nat
  | Pending

text \<open>
  \<^verbatim>\<open>generate_headers.js\<close> is not among the sources. The header provider is the
  parameter \<open>gen\<close> of both operations: \<open>gen k\<close> is the header set that the invocation
  number \<open>k\<close> (from 0) of \<^verbatim>\<open>generateHeaders\<close> returns within the operation.
\<close>

type_synonym header_provider = "nat \<Rightarrow> (string \<rightharpoonup> string)"

record mailbox_params =
  url :: string
  mailboxID :: string
  mailboxPassword :: string
  sharedKey :: string
  agent :: agent

section \<open>sendChunkedMessage\<close>

record send_params = mailbox_params +
  mailboxTarget :: string
  fileContent :: buffer

record transfer_result =
  result_status :: "nat option"
  result_data :: js_value

definition compressData :: "buffer \<Rightarrow> gz" where
  "compressData chunk = Gzip chunk"

text \<open>
  \<^verbatim>\<open>response.data["message_id"]\<close>: a \<^verbatim>\<open>TypeError\<close> on \<^verbatim>\<open>null\<close> and
  \<^verbatim>\<open>undefined\<close>, the own property of an object, and \<^verbatim>\<open>undefined\<close> on anything else.
\<close>

fun message_id_of :: "js_value \<Rightarrow> js_error + js_value" where
  "message_id_of JUndefined =
     Inl (OtherError ''Cannot read properties of undefined (reading 'message_id')'')"
| "message_id_of JNull =
     Inl (OtherError ''Cannot read properties of null (reading 'message_id')'')"
| "message_id_of (JObj props) =
     Inr (case map_of props ''message_id'' of None \<Rightarrow> JUndefined | Some v \<Rightarrow> v)"
| "message_id_of v = Inr JUndefined"

definition post_headers :: "send_params \<Rightarrow> (string \<rightharpoonup> string) \<Rightarrow> nat \<Rightarrow> nat \<Rightarrow> (string \<rightharpoonup> string)" where
  "post_headers p hdrs index n =
     hdrs(''content-type'' \<mapsto> ''application/octet-stream'',
             ''mex-from'' \<mapsto> mailboxID p,
             ''mex-to'' \<mapsto> mailboxTarget p,
             ''mex-workflowid'' \<mapsto> ''API-DOCS-TEST'',
             ''mex-filename'' \<mapsto> ''message.txt.gz'',
             ''mex-chunk-range'' \<mapsto> show_nat (index + 1) @ '':'' @ show_nat n,
             ''content-encoding'' \<mapsto> ''gzip'')"

definition post_config :: "send_params \<Rightarrow> (string \<rightharpoonup> string) \<Rightarrow> config" where
  "post_config p hdrs =
     \<lparr>cfg_headers = hdrs, httpsAgent = Some (agent p), setTimeout = Some 10000\<rparr>"

text \<open>
  The URL of a chunk. With a truthy \<open>messageID\<close> the template literal converts it to a
  string, which can throw.
\<close>

definition post_url :: "send_params \<Rightarrow> js_value \<Rightarrow> nat \<Rightarrow> js_error + string" where
  "post_url p messageID index =
     (if truthy messageID
      then (case to_string messageID of
              Inl error \<Rightarrow> Inl error
            | Inr text \<Rightarrow>
                Inr (url p @ ''/messageexchange/'' @ mailboxID p @ ''/outbox/'' @ text
                     @ ''/'' @ show_nat (index + 1)))
      else Inr (url p @ ''/messageexchange/'' @ mailboxID p @ ''/outbox''))"

text \<open>The \<^verbatim>\<open>catch\<close> block: each of its three branches logs its own line and returns the error.\<close>

definition send_catch :: "js_error \<Rightarrow> world \<Rightarrow> transfer_result outcome \<times> world" where
  "send_catch error w =
     (case error of
        HttpError r \<Rightarrow>
          (ReturnedError error,
           w\<lparr>logged := logged w @
              [LogError (''Request failed with status code '' @ show_nat (status r) @ '': '' @ statusText r)]\<rparr>)
      | NoResponse \<Rightarrow>
          (ReturnedError error,
           w\<lparr>logged := logged w @ [LogError ''No response was received for the request'']\<rparr>)
      | OtherError message \<Rightarrow>
          (ReturnedError error, w\<lparr>logged := logged w @ [LogError (''Error: '' @ message)]\<rparr>))"

text \<open>
  Step 3, the loop over \<^verbatim>\<open>chunks.entries()\<close>, with the variables \<open>result\<close> and
  \<open>messageID\<close> it assigns; \<open>n\<close> is \<^verbatim>\<open>chunks.length\<close>. One pass invokes
  \<^verbatim>\<open>generateHeaders\<close>, then builds the URL, then posts the chunk; an error thrown on
  the way goes to the \<^verbatim>\<open>catch\<close> block.
\<close>

fun sendLoop ::
  "send_params \<Rightarrow> header_provider \<Rightarrow> nat \<Rightarrow> (nat \<times> gz) list \<Rightarrow> reply list \<Rightarrow>
   transfer_result \<Rightarrow> js_value \<Rightarrow> world \<Rightarrow> transfer_result outcome \<times> world" where
  "sendLoop p gen n [] replies result messageID w = (Returned result, w)"
| "sendLoop p gen n ((index, chunk) # entries) replies result messageID w =
     (let hdrs = post_headers p (gen (calls w)) index n;
          config = post_config p hdrs;
          w = w\<lparr>calls := Suc (calls w)\<rparr>
      in case post_url p messageID index of
           Inl error \<Rightarrow> send_catch error w
         | Inr fullUrl \<Rightarrow>
             (let w = w\<lparr>issued := issued w @ [Post fullUrl chunk config]\<rparr>
              in case replies of
                   [] \<Rightarrow> (Pending, w)
                 | Failed error # _ \<Rightarrow> send_catch error w
                 | Responded response # replies' \<Rightarrow>
                     if status response = 202 then
                       (let result = (if truthy (data response)
                                      then \<lparr>result_status = Some (status response),
                                            result_data = data response\<rparr>
                                      else result)
                        in if truthy messageID
                           then sendLoop p gen n entries replies' result messageID w
                           else (case message_id_of (data response) of
                                   Inl error \<Rightarrow> send_catch error w
                                 | Inr messageID' \<Rightarrow>
                                     sendLoop p gen n entries replies' result messageID' w))
                     else
                       (Exited 1,
                        w\<lparr>logged := logged w @
                           [ConsoleError (''ERROR: Request 'sendMessageChunks' completed but responded with incorrect status: ''
                                          @ show_nat (status response))]\<rparr>)))"

definition sendChunkedMessage ::
  "send_params \<Rightarrow> header_provider \<Rightarrow> reply list \<Rightarrow> transfer_result outcome \<times> world" where
  "sendChunkedMessage p gen replies =
     (let result = \<lparr>result_status = None, result_data = JNull\<rparr>;
          messageID = JUndefined;
          splitChunks = splitIntoChunks (fileContent p);
          chunks = map compressData splitChunks
      in sendLoop p gen (length chunks) (enumerate 0 chunks) replies result messageID
           \<lparr>issued = [], calls = 0, logged = []\<rparr>)"

section \<open>readMessage\<close>

record read_params = mailbox_params +
  messageID :: string
  tlsEnabled :: bool

text \<open>
  \<^verbatim>\<open>readMessage\<close> returns the response itself on status 200 and the object
  \<^verbatim>\<open>{status: 206, data: chunkedMessage}\<close> after the loop.
\<close>

datatype read_result = Whole response | Assembled nat string

definition get_config :: "read_params \<Rightarrow> (string \<rightharpoonup> string) \<Rightarrow> config" where
  "get_config p hdrs =
     \<lparr>cfg_headers = hdrs,
      httpsAgent = (if tlsEnabled p then Some (agent p) else None),
      setTimeout = None\<rparr>"

text \<open>
  The body of the \<^verbatim>\<open>do ... while (true)\<close> loop up to the next
  \<^verbatim>\<open>axios.get\<close>: either the loop is over, with the outcome of the operation, or a
  request has been issued and the loop waits for its reply with the text assembled so
  far. An error thrown on the way (by \<^verbatim>\<open>+=\<close> on a body that has no string, or by
  \<^verbatim>\<open>.split\<close> on a header that is absent) is printed by the \<^verbatim>\<open>catch\<close> block, which
  ends the process.
\<close>

definition read_step ::
  "read_params \<Rightarrow> header_provider \<Rightarrow> string \<Rightarrow> response \<Rightarrow> world \<Rightarrow>
   (read_result outcome \<times> world) + (string \<times> world)" where
  "read_step p gen acc response w =
     (case to_string (data response) of
        Inl error \<Rightarrow> Inl (Exited 1, w\<lparr>logged := logged w @ [ConsoleErrorObject error]\<rparr>)
      | Inr text \<Rightarrow>
          (let chunkedMessage = acc @ text in
           case headers response ''mex-chunk-range'' of
             None \<Rightarrow>
               Inl (Exited 1,
                    w\<lparr>logged := logged w @
                       [ConsoleErrorObject
                          (OtherError ''Cannot read properties of undefined (reading 'split')'')]\<rparr>)
           | Some chunkRange \<Rightarrow>
               (case chunk_range_fields chunkRange of
                  (currentChunk, totalChunks) \<Rightarrow>
                    if js_less currentChunk totalChunks then
                      (let hdrs = gen (calls w);
                           config = get_config p hdrs;
                           fullUrl = url p @ ''/messageexchange/'' @ mailboxID p @ ''/inbox/''
                                     @ messageID p @ ''/'' @ number_to_string (js_succ currentChunk)
                       in Inr (chunkedMessage,
                               w\<lparr>calls := Suc (calls w),
                                 issued := issued w @ [Get fullUrl config]\<rparr>))
                    else Inl (Returned (Assembled 206 chunkedMessage), w))))"

fun readLoop ::
  "read_params \<Rightarrow> header_provider \<Rightarrow> string \<Rightarrow> response \<Rightarrow> reply list \<Rightarrow> world \<Rightarrow>
   read_result outcome \<times> world" where
  "readLoop p gen acc response replies w =
     (case read_step p gen acc response w of
        Inl done \<Rightarrow> done
      | Inr (chunkedMessage, w') \<Rightarrow>
          (case replies of
             [] \<Rightarrow> (Pending, w')
           | Failed error # _ \<Rightarrow>
               (Exited 1, w'\<lparr>logged := logged w' @ [ConsoleErrorObject error]\<rparr>)
           | Responded response' # replies' \<Rightarrow> readLoop p gen chunkedMessage response' replies' w'))"

declare readLoop.simps [simp del]

text \<open>
  The first \<^verbatim>\<open>axios.get\<close> stands before the \<^verbatim>\<open>try\<close> block: when it throws, the
  promise that \<^verbatim>\<open>readMessage\<close> returned is rejected.
\<close>

definition readMessage ::
  "read_params \<Rightarrow> header_provider \<Rightarrow> reply list \<Rightarrow> read_result outcome \<times> world" where
  "readMessage p gen replies =
     (let chunkedMessage = [];
          fullUrl = url p @ ''/messageexchange/'' @ mailboxID p @ ''/inbox/'' @ messageID p;
          hdrs = gen 0;
          config = get_config p hdrs;
          w = \<lparr>issued = [Get fullUrl config], calls = 1, logged = []\<rparr>
      in case replies of
           [] \<Rightarrow> (Pending, w)
         | Failed error # _ \<Rightarrow> (Rejected error, w)
         | Responded response # replies' \<Rightarrow>
             if status response = 200 then (Returned (Whole response), w)
             else if status response = 206 then readLoop p gen chunkedMessage response replies' w
             else
               (Exited 1,
                w\<lparr>logged := logged w @
                   [ConsoleError (''ERROR: Request 'getMessages' completed but responded with incorrect status: ''
                                  @ show_nat (status response))]\<rparr>))"

section \<open>Sample inputs\<close>

definition sample_send :: "buffer \<Rightarrow> send_params" where
  "sample_send content =
     \<lparr>url = ''https://mesh.example'', mailboxID = ''X26ABC1'', mailboxPassword = ''password'',
      sharedKey = ''key'', agent = HttpsAgent 0, mailboxTarget = ''X26ABC2'',
      fileContent = content\<rparr>"

definition two_chunks :: buffer where
  "two_chunks = replicate CHUNK_SIZE 0 @ [1]"

definition sample_gen :: header_provider where
  "sample_gen k = [''mex-nonce'' \<mapsto> show_nat k]"

definition reply_with :: "nat \<Rightarrow> js_value \<Rightarrow> response" where
  "reply_with st d = \<lparr>status = st, statusText = [], data = d, headers = Map.empty\<rparr>"

definition sample_read :: read_params where
  "sample_read =
     \<lparr>url = ''https://mesh.example'', mailboxID = ''X26ABC1'', mailboxPassword = ''password'',
      sharedKey = ''key'', agent = HttpsAgent 0, messageID = ''M1'', tlsEnabled = True\<rparr>"

definition chunk_reply :: "nat \<Rightarrow> string \<Rightarrow> js_value \<Rightarrow> response" where
  "chunk_reply st rng body =
     \<lparr>status = st, statusText = [], data = body, headers = [''mex-chunk-range'' \<mapsto> rng]\<rparr>"

section \<open>Vocabulary of the properties\<close>

text \<open>What one accepted response does to the variable \<open>result\<close> of the upload loop.\<close>

definition upd_result :: "transfer_result \<Rightarrow> response \<Rightarrow> transfer_result" where
  "upd_result result r =
     (if truthy (data r) then \<lparr>result_status = Some (status r), result_data = data r\<rparr> else result)"

text \<open>The header sets of the requests issued so far, in order.\<close>

definition header_sets :: "world \<Rightarrow> (string \<rightharpoonup> string) list" where
  "header_sets w = map (\<lambda>q. cfg_headers (req_config q)) (issued w)"

text \<open>
  The requests for the chunks after the first, once the identifier has the string form
  \<open>s\<close>; \<open>c\<close> is the number of the invocation of the provider.
\<close>

fun chunk_posts ::
  "send_params \<Rightarrow> header_provider \<Rightarrow> nat \<Rightarrow> string \<Rightarrow> nat \<Rightarrow> (nat \<times> gz) list \<Rightarrow> request list" where
  "chunk_posts p gen n s c [] = []"
| "chunk_posts p gen n s c ((index, chunk) # entries) =
     Post (url p @ ''/messageexchange/'' @ mailboxID p @ ''/outbox/'' @ s @ ''/'' @ show_nat (index + 1))
          chunk (post_config p (post_headers p (gen c) index n))
     # chunk_posts p gen n s (Suc c) entries"

text \<open>The endpoint of chunk \<open>k\<close> of the message to download.\<close>

definition chunk_url :: "read_params \<Rightarrow> nat \<Rightarrow> string" where
  "chunk_url p k =
     url p @ ''/messageexchange/'' @ mailboxID p @ ''/inbox/'' @ messageID p @ ''/'' @ show_nat k"

text \<open>The line that the upload loop prints for a response whose status is not 202.\<close>

definition wrong_status_line :: "response \<Rightarrow> log_entry" where
  "wrong_status_line r =
     ConsoleError (''ERROR: Request 'sendMessageChunks' completed but responded with incorrect status: ''
                   @ show_nat (status r))"

text \<open>The world after one more invocation of the provider and one more request posted.\<close>

definition posted :: "send_params \<Rightarrow> header_provider \<Rightarrow> nat \<Rightarrow> nat \<Rightarrow> gz \<Rightarrow> string \<Rightarrow> world \<Rightarrow> world" where
  "posted p gen n index chunk u w =
     w\<lparr>calls := Suc (calls w),
       issued := issued w @ [Post u chunk (post_config p (post_headers p (gen (calls w)) index n))]\<rparr>"

section \<open>Properties of the splitter\<close>

lemma CHUNK_SIZE_pos: "0 < CHUNK_SIZE"
  by (simp add: CHUNK_SIZE_def)

lemma CHUNK_SIZE_ge1: "Suc 0 \<le> CHUNK_SIZE"
  by (simp add: CHUNK_SIZE_def)

lemma splitIntoChunks_loop_done:
  "length buffer \<le> i \<Longrightarrow> splitIntoChunks_loop buffer i chunks = chunks"
  by (subst splitIntoChunks_loop.simps) simp

lemma splitIntoChunks_loop_step:
  "i < length buffer \<Longrightarrow>
   splitIntoChunks_loop buffer i chunks =
   splitIntoChunks_loop buffer (i + CHUNK_SIZE) (chunks @ [buffer_slice buffer i (i + CHUNK_SIZE)])"
  by (subst splitIntoChunks_loop.simps) simp

lemma splitIntoChunks_loop_acc:
  "splitIntoChunks_loop buffer i chunks = chunks @ splitIntoChunks_loop buffer i []"
proof (induction "length buffer - i" arbitrary: i chunks rule: less_induct)
  case less
  show ?case
  proof (cases "i < length buffer")
    case True
    let ?c = "buffer_slice buffer i (i + CHUNK_SIZE)"
    have smaller: "length buffer - (i + CHUNK_SIZE) < length buffer - i"
      using True by (simp add: CHUNK_SIZE_def)
    have "splitIntoChunks_loop buffer i chunks =
          (chunks @ [?c]) @ splitIntoChunks_loop buffer (i + CHUNK_SIZE) []"
      using True less [OF smaller, of "chunks @ [?c]"] by (simp add: splitIntoChunks_loop_step)
    moreover have "splitIntoChunks_loop buffer i [] =
          [?c] @ splitIntoChunks_loop buffer (i + CHUNK_SIZE) []"
      using True less [OF smaller, of "[?c]"] by (simp add: splitIntoChunks_loop_step)
    ultimately show ?thesis by simp
  next
    case False
    then show ?thesis by (simp add: splitIntoChunks_loop_done)
  qed
qed

lemma splitIntoChunks_loop_unfold:
  "i < length buffer \<Longrightarrow>
   splitIntoChunks_loop buffer i [] =
   take CHUNK_SIZE (drop i buffer) # splitIntoChunks_loop buffer (i + CHUNK_SIZE) []"
  using splitIntoChunks_loop_acc [of buffer "i + CHUNK_SIZE" "[buffer_slice buffer i (i + CHUNK_SIZE)]"]
  by (simp add: splitIntoChunks_loop_step buffer_slice_def)

lemma concat_splitIntoChunks_loop:
  "concat (splitIntoChunks_loop buffer i []) = drop i buffer"
proof (induction "length buffer - i" arbitrary: i rule: less_induct)
  case less
  show ?case
  proof (cases "i < length buffer")
    case True
    have "length buffer - (i + CHUNK_SIZE) < length buffer - i"
      using True CHUNK_SIZE_pos by arith
    then have "concat (splitIntoChunks_loop buffer (i + CHUNK_SIZE) []) = drop (i + CHUNK_SIZE) buffer"
      by (rule less)
    then show ?thesis
      using True by (simp add: splitIntoChunks_loop_unfold add.commute [of i] flip: drop_drop)
  next
    case False
    then show ?thesis by (simp add: splitIntoChunks_loop_done)
  qed
qed

text \<open>
  C1. Concatenating, in order, the chunks that \<open>splitIntoChunks\<close> returns for a
  payload gives the payload back, for every payload.
\<close>

theorem splitIntoChunks_roundtrip: "concat (splitIntoChunks P) = P"
  by (simp add: splitIntoChunks_def concat_splitIntoChunks_loop)

lemma splitIntoChunks_loop_last:
  "length buffer \<le> i + CHUNK_SIZE \<Longrightarrow> i < length buffer \<Longrightarrow>
   splitIntoChunks_loop buffer i [] = [drop i buffer]"
  by (simp add: splitIntoChunks_loop_unfold splitIntoChunks_loop_done)

lemma splitIntoChunks_loop_bound:
  "i < length buffer \<Longrightarrow>
   splitIntoChunks_loop buffer i [] \<noteq> [] \<and>
   (\<forall>c \<in> set (butlast (splitIntoChunks_loop buffer i [])). length c = CHUNK_SIZE) \<and>
   0 < length (last (splitIntoChunks_loop buffer i [])) \<and>
   length (last (splitIntoChunks_loop buffer i [])) \<le> CHUNK_SIZE"
proof (induction "length buffer - i" arbitrary: i rule: less_induct)
  case less
  show ?case
  proof (cases "i + CHUNK_SIZE < length buffer")
    case True
    let ?rest = "splitIntoChunks_loop buffer (i + CHUNK_SIZE) []"
    have "length buffer - (i + CHUNK_SIZE) < length buffer - i"
      using less.prems CHUNK_SIZE_pos by arith
    from less.hyps [OF this True]
    have rest: "?rest \<noteq> []" "\<forall>c \<in> set (butlast ?rest). length c = CHUNK_SIZE"
      "0 < length (last ?rest)" "length (last ?rest) \<le> CHUNK_SIZE"
      by simp_all
    have full: "length (take CHUNK_SIZE (drop i buffer)) = CHUNK_SIZE"
      using True by simp
    show ?thesis
      using rest full less.prems by (simp add: splitIntoChunks_loop_unfold)
  next
    case False
    then have "splitIntoChunks_loop buffer i [] = [drop i buffer]"
      using less.prems by (simp add: splitIntoChunks_loop_last)
    then show ?thesis
      using False less.prems by simp
  qed
qed

text \<open>
  C2. For a non-empty payload, \<open>splitIntoChunks\<close> returns at least one chunk; every
  chunk but the last has exactly \<open>CHUNK_SIZE\<close> bytes, and the last chunk has at least
  one byte and at most \<open>CHUNK_SIZE\<close>.
\<close>

theorem splitIntoChunks_chunk_bound:
  "P \<noteq> [] \<Longrightarrow>
   splitIntoChunks P \<noteq> [] \<and>
   (\<forall>c \<in> set (butlast (splitIntoChunks P)). length c = CHUNK_SIZE) \<and>
   0 < length (last (splitIntoChunks P)) \<and>
   length (last (splitIntoChunks P)) \<le> CHUNK_SIZE"
  unfolding splitIntoChunks_def by (rule splitIntoChunks_loop_bound) simp

lemma splitIntoChunks_two:
  "splitIntoChunks (replicate CHUNK_SIZE x @ [y]) = [replicate CHUNK_SIZE x, [y]]"
proof -
  let ?b = "replicate CHUNK_SIZE x @ [y]"
  have "splitIntoChunks_loop ?b (0 + CHUNK_SIZE) [] = [drop (0 + CHUNK_SIZE) ?b]"
    by (rule splitIntoChunks_loop_last) (simp_all add: CHUNK_SIZE_ge1)
  then show ?thesis
    using CHUNK_SIZE_pos
    by (simp add: splitIntoChunks_def splitIntoChunks_loop_unfold [of 0])
qed

theorem splitIntoChunks_chunk_bound_witness:
  "replicate CHUNK_SIZE (0::8 word) @ [1] \<noteq> [] \<and>
   splitIntoChunks (replicate CHUNK_SIZE 0 @ [1]) = [replicate CHUNK_SIZE 0, [1]] \<and>
   list_all (\<lambda>c. length c = CHUNK_SIZE) (butlast (splitIntoChunks (replicate CHUNK_SIZE 0 @ [1]))) \<and>
   0 < length (last (splitIntoChunks (replicate CHUNK_SIZE 0 @ [1]))) \<and>
   length (last (splitIntoChunks (replicate CHUNK_SIZE 0 @ [1]))) \<le> CHUNK_SIZE"
proof -
  have ne: "replicate CHUNK_SIZE (0::8 word) @ [1] \<noteq> []" by simp
  show ?thesis
    using splitIntoChunks_chunk_bound [OF ne] splitIntoChunks_two [of 0 1]
    by (simp add: list_all_iff)
qed

lemma split_two_chunks: "splitIntoChunks two_chunks = [replicate CHUNK_SIZE 0, [1]]"
  by (simp add: two_chunks_def splitIntoChunks_two)

section \<open>Decimal forms and their conversion back to numbers\<close>

lemma of_char_digit_char: "d < 10 \<Longrightarrow> (of_char (digit_char d) :: nat) = 48 + d"
  by (simp add: digit_char_def)

lemma of_char_digit_char_int: "d < 10 \<Longrightarrow> (of_char (digit_char d) :: int) = 48 + int d"
proof -
  assume "d < 10"
  have "(of_char (digit_char d) :: int) = int (of_char (digit_char d))"
    by (simp only: of_nat_of_char)
  also have "\<dots> = 48 + int d"
    using \<open>d < 10\<close> by (simp add: of_char_digit_char)
  finally show ?thesis .
qed

lemma is_digit_digit_char: "d < 10 \<Longrightarrow> is_digit (digit_char d)"
  by (simp add: is_digit_def of_char_digit_char)

lemma show_nat_digits: "list_all is_digit (show_nat n)"
proof (induction n rule: show_nat.induct)
  case (1 n)
  show ?case
  proof (cases "n < 10")
    case True
    then show ?thesis by (subst show_nat.simps) (simp add: is_digit_digit_char)
  next
    case False
    then show ?thesis
      using 1 by (subst show_nat.simps) (simp add: is_digit_digit_char)
  qed
qed

lemma show_nat_nonempty: "show_nat n \<noteq> []"
  by (subst show_nat.simps) simp

lemma digits_value_snoc:
  "digits_value (s @ [c]) = 10 * digits_value s + (of_char c - 48)"
  by (simp add: digits_value_def)

lemma digits_value_show_nat: "digits_value (show_nat n) = int n"
proof (induction n rule: show_nat.induct)
  case (1 n)
  show ?case
  proof (cases "n < 10")
    case True
    then have "(of_char (digit_char n) :: int) = 48 + int n"
      by (rule of_char_digit_char_int)
    with True show ?thesis by (subst show_nat.simps) (simp add: digits_value_def)
  next
    case False
    have "(of_char (digit_char (n mod 10)) :: int) = 48 + int (n mod 10)"
      by (rule of_char_digit_char_int) simp
    moreover have "10 * int (n div 10) + int (n mod 10) = int n"
      by presburger
    ultimately show ?thesis
      using False 1 by (subst show_nat.simps) (simp add: digits_value_snoc)
  qed
qed

lemma show_nat_inj: "show_nat a = show_nat b \<Longrightarrow> a = b"
  by (metis digits_value_show_nat of_nat_eq_iff)

lemma digit_not_white_space: "is_digit c \<Longrightarrow> \<not> is_white_space c"
  by (auto simp: is_digit_def is_white_space_def)

lemma trim_digits: "list_all is_digit s \<Longrightarrow> trim s = s"
proof (cases "s = []")
  case True
  then show ?thesis by (simp add: trim_def)
next
  case False
  assume d: "list_all is_digit s"
  with False have "\<not> is_white_space (hd s)" "\<not> is_white_space (last s)"
    by (auto simp: list_all_iff digit_not_white_space)
  with False have "dropWhile is_white_space s = s"
    "dropWhile is_white_space (rev s) = rev s"
    by (simp_all add: dropWhile_eq_self_iff hd_rev)
  then show ?thesis
    by (simp add: trim_def)
qed

lemma strip_sign_digits: "list_all is_digit s \<Longrightarrow> strip_sign s = s"
  by (cases s) (auto simp: strip_sign_def is_digit_def)

lemma hd_digits_not_minus: "list_all is_digit s \<Longrightarrow> s \<noteq> [] \<Longrightarrow> hd s \<noteq> CHR ''-''"
  by (cases s) (auto simp: is_digit_def)

lemma split_on_no_sep: "sep \<notin> set s \<Longrightarrow> split_on sep s = [s]"
  by (induction s) auto

lemma split_on_first: "sep \<notin> set a \<Longrightarrow> split_on sep (a @ sep # b) = a # split_on sep b"
  by (induction a) auto

lemma colon_not_digit: "list_all is_digit s \<Longrightarrow> CHR '':'' \<notin> set s"
  by (auto simp: list_all_iff is_digit_def)

lemma show_nat_small: "n < 10 \<Longrightarrow> show_nat n = [digit_char n]"
  by (subst show_nat.simps) simp

lemma show_nat_1: "show_nat 1 = ''1''" and show_nat_2: "show_nat 2 = ''2''"
  and show_nat_Suc_0: "show_nat (Suc 0) = ''1''"
  and show_nat_Suc_Suc_0: "show_nat (Suc (Suc 0)) = ''2''"
  by (simp_all add: show_nat_small digit_char_def char_of_def bit_iff_odd)

lemma show_nat_3: "show_nat 3 = ''3''"
  by (simp add: show_nat_small digit_char_def char_of_def bit_iff_odd)

lemma show_nat_Suc_Suc_Suc_0: "show_nat (Suc (Suc (Suc 0))) = ''3''"
  using show_nat_3 by (simp add: numeral_3_eq_3)

lemma is_safe_integer_of_nat: "n \<le> 2 ^ 53 \<Longrightarrow> is_safe_integer (of_nat n)"
proof -
  assume "n \<le> 2 ^ 53"
  then have "(of_nat n :: rat) \<le> of_nat (2 ^ 53)"
    by (simp only: of_nat_le_iff)
  then show ?thesis
    by (simp add: is_safe_integer_def)
qed

lemma round_double_of_nat: "n \<le> 2 ^ 53 \<Longrightarrow> round_double (of_nat n) = Fin (of_nat n)"
  by (simp add: round_double_def is_safe_integer_of_nat)

lemma number_to_string_of_nat:
  "n \<le> 2 ^ 53 \<Longrightarrow> number_to_string (Fin (of_nat n)) = show_nat n"
  by (simp add: positive_to_string_def is_safe_integer_of_nat)

lemma js_succ_of_nat: "n < 2 ^ 53 \<Longrightarrow> js_succ (Fin (of_nat n)) = Fin (of_nat (Suc n))"
  using round_double_of_nat [of "Suc n"] by (simp add: add.commute)

lemma digits_not_Infinity: "list_all is_digit s \<Longrightarrow> s \<noteq> ''Infinity''"
  by (auto simp: is_digit_def)

lemma unsigned_decimal_digits:
  "list_all is_digit s \<Longrightarrow> s \<noteq> [] \<Longrightarrow> unsigned_decimal s = Some (of_int (digits_value s))"
proof -
  assume d: "list_all is_digit s" and ne: "s \<noteq> []"
  have tw: "takeWhile is_digit s = s" and dw: "dropWhile is_digit s = []"
    using d by (simp_all add: list_all_iff)
  show ?thesis
    using ne by (simp add: unsigned_decimal_def Let_def tw dw exponent_value_def pow_int_def)
qed

lemma Number_js_show_nat:
  "n \<le> 2 ^ 53 \<Longrightarrow> Number_js (show_nat n) = Fin (of_nat n)"
  using show_nat_digits [of n] show_nat_nonempty [of n]
  by (simp add: Number_js_def Let_def trim_digits strip_sign_digits digits_not_Infinity
      hd_digits_not_minus unsigned_decimal_digits digits_value_show_nat round_double_of_nat)

lemma chunk_range_fields_show:
  "k \<le> 2 ^ 53 \<Longrightarrow> t \<le> 2 ^ 53 \<Longrightarrow>
   chunk_range_fields (show_nat k @ CHR '':'' # show_nat t) = (Fin (of_nat k), Fin (of_nat t))"
  by (simp add: chunk_range_fields_def split_on_first split_on_no_sep colon_not_digit
      show_nat_digits Number_js_show_nat)

lemma chunk_range_fields_examples:
  "chunk_range_fields ''x:2'' = (NaN, Fin 2)"
  "chunk_range_fields '':2'' = (Fin 0, Fin 2)"
  "chunk_range_fields ''1:'' = (Fin 1, Fin 0)"
  "chunk_range_fields ''1:2'' = (Fin 1, Fin 2)"
  "chunk_range_fields ''2:2'' = (Fin 2, Fin 2)"
  by code_simp+

lemma number_to_string_examples:
  "number_to_string (js_succ (Fin 0)) = ''1''"
  "number_to_string (js_succ (Fin 1)) = ''2''"
  by code_simp+

text \<open>
  Beyond \<open>2 ^ 53\<close> not every integer is a double: \<open>2 ^ 53 + 1\<close> lies half way between
  two doubles and is rounded to the even one, \<open>2 ^ 53\<close>.
\<close>

lemma floor_above_safe: "\<lfloor>(9007199254740993::rat) / 2\<rfloor> = 4503599627370496"
  by (rule floor_unique) simp_all

lemma round_double_above_safe: "round_double 9007199254740993 = Fin 9007199254740992"
  by (simp add: round_double_def is_safe_integer_def floor_log_def digit_count.simps pow_int_def
      round_half_even_def Let_def floor_above_safe)

lemma Number_js_above_safe: "Number_js ''9007199254740993'' = Fin 9007199254740992"
proof -
  have "unsigned_decimal ''9007199254740993'' = Some 9007199254740993" by code_simp
  moreover have "trim ''9007199254740993'' = ''9007199254740993''" by code_simp
  ultimately show ?thesis
    by (simp add: Number_js_def strip_sign_def Let_def round_double_above_safe)
qed

lemma Number_js_safe: "Number_js ''9007199254740992'' = Fin 9007199254740992"
  by code_simp

lemma chunk_range_fields_above_safe:
  "chunk_range_fields ''9007199254740992:9007199254740993''
     = (Fin 9007199254740992, Fin 9007199254740992)"
proof -
  have "split_on CHR '':'' ''9007199254740992:9007199254740993''
      = [''9007199254740992'', ''9007199254740993'']"
    by code_simp
  then show ?thesis
    by (simp add: chunk_range_fields_def Number_js_above_safe Number_js_safe)
qed

lemma chunk_range_fields_exponent: "chunk_range_fields ''1e0:2'' = (Fin 1, Fin 2)"
  by code_simp

section \<open>The upload loop\<close>

lemma send_catch_world:
  "issued (snd (send_catch e w)) = issued w" "calls (snd (send_catch e w)) = calls w"
  by (cases e; simp add: send_catch_def)+

lemma send_catch_outcome: "fst (send_catch e w) = ReturnedError e"
  by (cases e) (simp_all add: send_catch_def)

lemma send_catch_not_pending:
  "send_catch e w \<noteq> (Pending, w')" "(Pending, w') \<noteq> send_catch e w"
  using send_catch_outcome [of e w] by (auto dest: arg_cong [where f = fst])

lemma post_url_falsy:
  "\<not> truthy mid \<Longrightarrow>
   post_url p mid index = Inr (url p @ ''/messageexchange/'' @ mailboxID p @ ''/outbox'')"
  by (simp add: post_url_def)

lemma post_url_truthy:
  "truthy mid \<Longrightarrow> to_string mid = Inr s \<Longrightarrow>
   post_url p mid index =
     Inr (url p @ ''/messageexchange/'' @ mailboxID p @ ''/outbox/'' @ s @ ''/'' @ show_nat (index + 1))"
  by (simp add: post_url_def)

lemma length_chunk_posts: "length (chunk_posts p gen n s c entries) = length entries"
  by (induction entries arbitrary: c) auto

lemma chunk_posts_nth:
  "k < length cs \<Longrightarrow>
   chunk_posts p gen n s c (enumerate i cs) ! k =
   Post (url p @ ''/messageexchange/'' @ mailboxID p @ ''/outbox/'' @ s @ ''/'' @ show_nat (i + k + 1))
        (cs ! k) (post_config p (post_headers p (gen (c + k)) (i + k) n))"
proof (induction cs arbitrary: c i k)
  case Nil
  then show ?case by simp
next
  case (Cons x cs)
  then show ?case by (cases k) simp_all
qed

lemma sendLoop_with_messageID:
  "truthy mid \<Longrightarrow> to_string mid = Inr s \<Longrightarrow> length rs = length entries \<Longrightarrow>
   \<forall>r \<in> set rs. status r = 202 \<Longrightarrow>
   sendLoop p gen n entries (map Responded rs @ rest) result mid w =
   (Returned (foldl upd_result result rs),
    w\<lparr>calls := calls w + length entries,
      issued := issued w @ chunk_posts p gen n s (calls w) entries\<rparr>)"
proof (induction entries arbitrary: rs result w)
  case Nil
  then show ?case by simp
next
  case (Cons e entries)
  obtain index chunk where e: "e = (index, chunk)" by (cases e)
  from Cons.prems obtain r rs' where rs: "rs = r # rs'" by (cases rs) auto
  with Cons.prems have r: "status r = 202" and rs': "\<forall>r \<in> set rs'. status r = 202"
    and len: "length rs' = length entries"
    by simp_all
  show ?case
    using Cons.prems(1) r Cons.IH [OF Cons.prems(1,2) len rs']
    by (simp add: e rs upd_result_def Let_def post_url_truthy [OF Cons.prems(1,2)])
qed


text \<open>One pass of the loop over an entry, case by case.\<close>

lemma sendLoop_url_throws:
  "post_url p mid index = Inl e \<Longrightarrow>
   sendLoop p gen n ((index, chunk) # entries) replies result mid w
     = send_catch e (w\<lparr>calls := Suc (calls w)\<rparr>)"
  by (simp add: Let_def)

lemma posted_fields:
  "calls (posted p gen n index chunk u w) = Suc (calls w)"
  "issued (posted p gen n index chunk u w)
     = issued w @ [Post u chunk (post_config p (post_headers p (gen (calls w)) index n))]"
  "logged (posted p gen n index chunk u w) = logged w"
  by (simp_all add: posted_def)

lemma sendLoop_no_reply:
  "post_url p mid index = Inr u \<Longrightarrow>
   sendLoop p gen n ((index, chunk) # entries) [] result mid w
     = (Pending, posted p gen n index chunk u w)"
  by (simp add: Let_def posted_def)

lemma sendLoop_failed:
  "post_url p mid index = Inr u \<Longrightarrow>
   sendLoop p gen n ((index, chunk) # entries) (Failed e # replies) result mid w
     = send_catch e (posted p gen n index chunk u w)"
  by (simp add: Let_def posted_def)

lemma sendLoop_wrong_status:
  "post_url p mid index = Inr u \<Longrightarrow> status r \<noteq> 202 \<Longrightarrow>
   sendLoop p gen n ((index, chunk) # entries) (Responded r # replies) result mid w
     = (Exited 1, (posted p gen n index chunk u w)
          \<lparr>logged := logged (posted p gen n index chunk u w) @ [wrong_status_line r]\<rparr>)"
  by (simp add: Let_def posted_def wrong_status_line_def)

lemma sendLoop_accepted_known:
  "post_url p mid index = Inr u \<Longrightarrow> status r = 202 \<Longrightarrow> truthy mid \<Longrightarrow>
   sendLoop p gen n ((index, chunk) # entries) (Responded r # replies) result mid w
     = sendLoop p gen n entries replies (upd_result result r) mid (posted p gen n index chunk u w)"
  by (simp add: Let_def posted_def upd_result_def)

lemma sendLoop_accepted_throws:
  "post_url p mid index = Inr u \<Longrightarrow> status r = 202 \<Longrightarrow> \<not> truthy mid \<Longrightarrow>
   message_id_of (data r) = Inl e \<Longrightarrow>
   sendLoop p gen n ((index, chunk) # entries) (Responded r # replies) result mid w
     = send_catch e (posted p gen n index chunk u w)"
  by (simp add: Let_def posted_def)

lemma sendLoop_accepted_new:
  "post_url p mid index = Inr u \<Longrightarrow> status r = 202 \<Longrightarrow> \<not> truthy mid \<Longrightarrow>
   message_id_of (data r) = Inr m \<Longrightarrow>
   sendLoop p gen n ((index, chunk) # entries) (Responded r # replies) result mid w
     = sendLoop p gen n entries replies (upd_result result r) m (posted p gen n index chunk u w)"
  by (simp add: Let_def posted_def upd_result_def)

text \<open>
  The cases of one pass: the URL throws; or the request is posted and then there is no
  reply, the request fails, the status is wrong, reading the identifier throws, or the
  loop goes on.
\<close>

lemma sendLoop_cases:
  obtains (url_throws) e where "post_url p mid index = Inl e"
      "sendLoop p gen n ((index, chunk) # entries) replies result mid w
         = send_catch e (w\<lparr>calls := Suc (calls w)\<rparr>)"
  | (no_reply) u where "post_url p mid index = Inr u" "replies = []"
      "sendLoop p gen n ((index, chunk) # entries) replies result mid w
         = (Pending, posted p gen n index chunk u w)"
  | (failed) u e replies' where "post_url p mid index = Inr u" "replies = Failed e # replies'"
      "sendLoop p gen n ((index, chunk) # entries) replies result mid w
         = send_catch e (posted p gen n index chunk u w)"
  | (wrong_status) u r replies' where "post_url p mid index = Inr u"
      "replies = Responded r # replies'" "status r \<noteq> 202"
      "sendLoop p gen n ((index, chunk) # entries) replies result mid w
         = (Exited 1, (posted p gen n index chunk u w)
              \<lparr>logged := logged (posted p gen n index chunk u w) @ [wrong_status_line r]\<rparr>)"
  | (id_throws) u r replies' e where "post_url p mid index = Inr u"
      "replies = Responded r # replies'" "status r = 202" "\<not> truthy mid"
      "message_id_of (data r) = Inl e"
      "sendLoop p gen n ((index, chunk) # entries) replies result mid w
         = send_catch e (posted p gen n index chunk u w)"
  | (goes_on) u r replies' mid' where "post_url p mid index = Inr u"
      "replies = Responded r # replies'" "status r = 202"
      "truthy mid \<and> mid' = mid \<or> \<not> truthy mid \<and> message_id_of (data r) = Inr mid'"
      "sendLoop p gen n ((index, chunk) # entries) replies result mid w
         = sendLoop p gen n entries replies' (upd_result result r) mid'
             (posted p gen n index chunk u w)"
proof (cases "post_url p mid index")
  case (Inl e)
  show ?thesis by (rule url_throws [OF Inl sendLoop_url_throws [OF Inl]])
next
  case (Inr u)
  show ?thesis
  proof (cases replies)
    case Nil
    show ?thesis
      by (rule no_reply [OF Inr Nil]) (simp only: Nil sendLoop_no_reply [OF Inr])
  next
    case (Cons reply replies')
    show ?thesis
    proof (cases reply)
      case (Failed e)
      show ?thesis
        by (rule failed [OF Inr, of e replies'])
           (simp_all only: Cons Failed sendLoop_failed [OF Inr])
    next
      case (Responded r)
      show ?thesis
      proof (cases "status r = 202")
        case False
        show ?thesis
          by (rule wrong_status [OF Inr _ False, of replies'])
             (simp_all only: Cons Responded sendLoop_wrong_status [OF Inr False])
      next
        case True
        show ?thesis
        proof (cases "truthy mid")
          case t: True
          show ?thesis
            by (rule goes_on [OF Inr _ True, of replies' mid])
               (simp_all only: Cons Responded sendLoop_accepted_known [OF Inr True t] t simp_thms)
        next
          case f: False
          show ?thesis
          proof (cases "message_id_of (data r)")
            case (Inl e)
            show ?thesis
              by (rule id_throws [OF Inr _ True f Inl, of replies'])
                 (simp_all only: Cons Responded sendLoop_accepted_throws [OF Inr True f Inl])
          next
            case m: (Inr m)
            show ?thesis
              by (rule goes_on [OF Inr _ True, of replies' m])
                 (simp_all only: Cons Responded sendLoop_accepted_new [OF Inr True f m] f m simp_thms)
          qed
        qed
      qed
    qed
  qed
qed

lemma sendLoop_Nil: "sendLoop p gen n [] replies result mid w = (Returned result, w)"
  by simp

declare sendLoop.simps [simp del]
declare sendLoop_Nil [simp]

lemma to_string_error:
  "to_string v = Inl e \<Longrightarrow> e = OtherError ''Cannot convert object to primitive value''"
  "join_elements vs = Inl e \<Longrightarrow> e = OtherError ''Cannot convert object to primitive value''"
  by (induction v and vs rule: to_string_join_elements.induct)
     (auto split: if_splits sum.splits)

lemma post_url_error:
  "post_url p mid index = Inl e \<Longrightarrow> e = OtherError ''Cannot convert object to primitive value''"
  by (auto simp: post_url_def to_string_error split: if_splits sum.splits)


lemma sendLoop_pending:
  "sendLoop p gen n entries replies result mid w = (Pending, w') \<Longrightarrow>
   logged w' = logged w \<and>
   sendLoop p gen n entries (replies @ Failed e # rest) result mid w = send_catch e w' \<and>
   (status r \<noteq> 202 \<longrightarrow>
      sendLoop p gen n entries (replies @ Responded r # rest) result mid w
        = (Exited 1, w'\<lparr>logged := logged w' @ [wrong_status_line r]\<rparr>))"
proof (induction entries arbitrary: replies result mid w)
  case Nil
  then show ?case by simp
next
  case (Cons entry entries)
  obtain index chunk where entry: "entry = (index, chunk)" by (cases entry)
  note run = Cons.prems [unfolded entry]
  show ?case
  proof (cases rule: sendLoop_cases [of p mid index gen n chunk entries replies result w])
    case (url_throws e')
    with run show ?thesis by (simp add: send_catch_not_pending entry)
  next
    case (no_reply u)
    with run have w': "w' = posted p gen n index chunk u w" by simp
    show ?thesis
    proof (intro conjI impI)
      show "logged w' = logged w"
        by (simp add: w' posted_fields)
      show "sendLoop p gen n (entry # entries) (replies @ Failed e # rest) result mid w
          = send_catch e w'"
        by (simp only: entry no_reply(2) w' append_Nil sendLoop_failed [OF no_reply(1)])
      assume st: "status r \<noteq> 202"
      show "sendLoop p gen n (entry # entries) (replies @ Responded r # rest) result mid w
          = (Exited 1, w'\<lparr>logged := logged w' @ [wrong_status_line r]\<rparr>)"
        by (simp only: entry no_reply(2) w' append_Nil sendLoop_wrong_status [OF no_reply(1) st])
    qed
  next
    case (failed u e' replies')
    with run show ?thesis by (simp add: send_catch_not_pending entry)
  next
    case (wrong_status u r' replies')
    with run show ?thesis by (simp add: entry)
  next
    case (id_throws u r' replies' e')
    with run show ?thesis by (simp add: send_catch_not_pending entry)
  next
    case (goes_on u r' replies' mid')
    let ?w1 = "posted p gen n index chunk u w"
    from run goes_on(5)
    have "sendLoop p gen n entries replies' (upd_result result r') mid' ?w1 = (Pending, w')"
      by simp
    from Cons.IH [OF this]
    have ih: "logged w' = logged ?w1"
      "sendLoop p gen n entries (replies' @ Failed e # rest) (upd_result result r') mid' ?w1
         = send_catch e w'"
      "status r \<noteq> 202 \<longrightarrow>
         sendLoop p gen n entries (replies' @ Responded r # rest) (upd_result result r') mid' ?w1
           = (Exited 1, w'\<lparr>logged := logged w' @ [wrong_status_line r]\<rparr>)"
      by simp_all
    have step: "sendLoop p gen n ((index, chunk) # entries) (Responded r' # more) result mid w
        = sendLoop p gen n entries more (upd_result result r') mid' ?w1" for more
    proof (cases "truthy mid")
      case True
      with goes_on(4) have "mid' = mid" by simp
      then show ?thesis by (simp only: sendLoop_accepted_known [OF goes_on(1,3) True])
    next
      case False
      with goes_on(4) have "message_id_of (data r') = Inr mid'" by simp
      then show ?thesis by (simp only: sendLoop_accepted_new [OF goes_on(1,3) False])
    qed
    show ?thesis
      using ih by (simp add: entry goes_on(2) step posted_fields)
  qed
qed


lemma sendLoop_never_rejected:
  "fst (sendLoop p gen n entries replies result mid w) \<noteq> Rejected e"
proof (induction entries arbitrary: replies result mid w)
  case Nil
  then show ?case by simp
next
  case (Cons entry entries)
  obtain index chunk where entry: "entry = (index, chunk)" by (cases entry)
  show ?case
    by (cases rule: sendLoop_cases [of p mid index gen n chunk entries replies result w])
       (simp_all add: entry send_catch_outcome Cons.IH)
qed

lemma sendLoop_exit_cause:
  "fst (sendLoop p gen n entries replies result mid w) = Exited c \<Longrightarrow>
   \<exists>r. Responded r \<in> set replies \<and> status r \<noteq> 202"
proof (induction entries arbitrary: replies result mid w)
  case Nil
  then show ?case by simp
next
  case (Cons entry entries)
  obtain index chunk where entry: "entry = (index, chunk)" by (cases entry)
  note run = Cons.prems [unfolded entry]
  show ?case
  proof (cases rule: sendLoop_cases [of p mid index gen n chunk entries replies result w])
    case (url_throws e)
    with run show ?thesis by (simp add: send_catch_outcome)
  next
    case (no_reply u)
    with run show ?thesis by simp
  next
    case (failed u e replies')
    with run show ?thesis by (simp add: send_catch_outcome)
  next
    case (wrong_status u r replies')
    then show ?thesis by auto
  next
    case (id_throws u r replies' e)
    with run show ?thesis by (simp add: send_catch_outcome)
  next
    case (goes_on u r replies' mid')
    with run have "fst (sendLoop p gen n entries replies' (upd_result result r) mid'
        (posted p gen n index chunk u w)) = Exited c"
      by simp
    from Cons.IH [OF this] show ?thesis
      using goes_on(2) by auto
  qed
qed

lemma sendLoop_headers:
  assumes "calls w = length (issued w)"
    and "header_sets w = map (\<lambda>k. post_headers p (gen k) k n) [0..<calls w]"
  shows "header_sets (snd (sendLoop p gen n (enumerate (calls w) cs) replies result mid w))
           = map (\<lambda>k. post_headers p (gen k) k n)
               [0..<length (issued (snd (sendLoop p gen n (enumerate (calls w) cs) replies result mid w)))] \<and>
         (calls (snd (sendLoop p gen n (enumerate (calls w) cs) replies result mid w))
            = length (issued (snd (sendLoop p gen n (enumerate (calls w) cs) replies result mid w))) \<or>
          calls (snd (sendLoop p gen n (enumerate (calls w) cs) replies result mid w))
            = Suc (length (issued (snd (sendLoop p gen n (enumerate (calls w) cs) replies result mid w)))) \<and>
          fst (sendLoop p gen n (enumerate (calls w) cs) replies result mid w)
            = ReturnedError (OtherError ''Cannot convert object to primitive value''))"
  using assms
proof (induction cs arbitrary: replies result mid w)
  case Nil
  then show ?case by simp
next
  case (Cons c cs)
  let ?f = "\<lambda>k. post_headers p (gen k) k n"
  let ?run = "sendLoop p gen n ((calls w, c) # enumerate (Suc (calls w)) cs) replies result mid w"
  have inv1: "calls (posted p gen n (calls w) c u w) = length (issued (posted p gen n (calls w) c u w))"
    "header_sets (posted p gen n (calls w) c u w)
       = map ?f [0..<calls (posted p gen n (calls w) c u w)]" for u
    using Cons.prems by (simp_all add: header_sets_def posted_fields post_config_def)
  have same: "header_sets w' = map ?f [0..<length (issued w')] \<and>
      (calls w' = length (issued w') \<or> calls w' = Suc (length (issued w')) \<and> X)"
    if "issued w' = issued (posted p gen n (calls w) c u w)"
      "calls w' = calls (posted p gen n (calls w) c u w)" for w' u X
    using inv1 [of u] that by (simp add: header_sets_def)
  have goal: "header_sets (snd ?run) = map ?f [0..<length (issued (snd ?run))] \<and>
      (calls (snd ?run) = length (issued (snd ?run)) \<or>
       calls (snd ?run) = Suc (length (issued (snd ?run))) \<and>
       fst ?run = ReturnedError (OtherError ''Cannot convert object to primitive value''))"
  proof (cases rule: sendLoop_cases [of p mid "calls w" gen n c "enumerate (Suc (calls w)) cs" replies result w])
    case (url_throws e)
    have e: "e = OtherError ''Cannot convert object to primitive value''"
      by (rule post_url_error [OF url_throws(1)])
    show ?thesis
      unfolding url_throws(2)
      using Cons.prems by (simp add: send_catch_world send_catch_outcome header_sets_def e)
  next
    case (no_reply u)
    show ?thesis unfolding no_reply(3) snd_conv by (rule same) simp_all
  next
    case (failed u e replies')
    show ?thesis unfolding failed(3) by (rule same) (simp_all add: send_catch_world)
  next
    case (wrong_status u r replies')
    show ?thesis unfolding wrong_status(4) snd_conv by (rule same) simp_all
  next
    case (id_throws u r replies' e)
    show ?thesis unfolding id_throws(6) by (rule same) (simp_all add: send_catch_world)
  next
    case (goes_on u r replies' mid')
    show ?thesis
      unfolding goes_on(5)
      using Cons.IH [OF inv1, of u replies' "upd_result result r" mid']
      by (simp add: posted_fields)
  qed
  then show ?case by simp
qed

lemma post_headers_inj:
  "post_headers p h k n = post_headers p h' k' n \<Longrightarrow> k = k'"
proof -
  assume "post_headers p h k n = post_headers p h' k' n"
  then have "post_headers p h k n ''mex-chunk-range'' = post_headers p h' k' n ''mex-chunk-range''"
    by simp
  then have "show_nat (k + 1) = show_nat (k' + 1)"
    by (simp add: post_headers_def)
  then show ?thesis
    using show_nat_inj by fastforce
qed

lemma inj_sample_gen: "inj sample_gen"
proof (rule injI)
  fix a b
  assume "sample_gen a = sample_gen b"
  then have "sample_gen a ''mex-nonce'' = sample_gen b ''mex-nonce''" by simp
  then show "a = b" by (simp add: sample_gen_def show_nat_inj)
qed

lemma sendChunkedMessage_headers:
  "header_sets (snd (sendChunkedMessage p gen replies)) =
     map (\<lambda>k. post_headers p (gen k) k (length (splitIntoChunks (fileContent p))))
       [0..<length (issued (snd (sendChunkedMessage p gen replies)))] \<and>
   (calls (snd (sendChunkedMessage p gen replies))
      = length (issued (snd (sendChunkedMessage p gen replies))) \<or>
    calls (snd (sendChunkedMessage p gen replies))
      = Suc (length (issued (snd (sendChunkedMessage p gen replies)))) \<and>
    fst (sendChunkedMessage p gen replies)
      = ReturnedError (OtherError ''Cannot convert object to primitive value''))"
proof -
  let ?w0 = "\<lparr>issued = [], calls = 0, logged = []\<rparr>"
  have "calls ?w0 = length (issued ?w0)"
    and "header_sets ?w0 = map (\<lambda>k. post_headers p (gen k) k (length (splitIntoChunks (fileContent p))))
       [0..<calls ?w0]"
    by (simp_all add: header_sets_def)
  from sendLoop_headers [OF this] show ?thesis
    by (simp add: sendChunkedMessage_def Let_def)
qed

lemma sendChunkedMessage_accepted:
  assumes N: "N = length (splitIntoChunks (fileContent p))" and "0 < N"
    and len: "length rs = N" and ok: "\<forall>r \<in> set rs. status r = 202"
    and m: "message_id_of (data (rs ! 0)) = Inr m" and t: "truthy m"
    and s: "to_string m = Inr s"
  shows "\<exists>c cs. map compressData (splitIntoChunks (fileContent p)) = c # cs \<and>
     sendChunkedMessage p gen (map Responded rs) =
       (Returned (foldl upd_result \<lparr>result_status = None, result_data = JNull\<rparr> rs),
        \<lparr>issued = Post (url p @ ''/messageexchange/'' @ mailboxID p @ ''/outbox'') c
                     (post_config p (post_headers p (gen 0) 0 N))
                 # chunk_posts p gen N s 1 (enumerate 1 cs),
         calls = N, logged = []\<rparr>)"
proof -
  obtain c cs where chunks: "map compressData (splitIntoChunks (fileContent p)) = c # cs"
    using N \<open>0 < N\<close> by (cases "map compressData (splitIntoChunks (fileContent p))") auto
  obtain r rs' where rs: "rs = r # rs'"
    using len \<open>0 < N\<close> by (cases rs) auto
  have lens: "length rs' = length (enumerate 1 cs)" "N = Suc (length cs)"
    using len rs N chunks by (simp_all flip: length_map [of compressData])
  have oks: "\<forall>r \<in> set rs'. status r = 202" and r: "status r = 202"
    using ok rs by simp_all
  have m': "message_id_of (data r) = Inr m"
    using m rs by simp
  let ?init = "\<lparr>result_status = None, result_data = JNull\<rparr>"
  let ?w0 = "\<lparr>issued = [], calls = 0, logged = []\<rparr>"
  let ?u = "url p @ ''/messageexchange/'' @ mailboxID p @ ''/outbox''"
  have u: "post_url p JUndefined 0 = Inr ?u"
    by (simp add: post_url_def)
  have first: "sendLoop p gen N ((0, c) # enumerate 1 cs) (Responded r # map Responded rs') ?init
        JUndefined ?w0
      = sendLoop p gen N (enumerate 1 cs) (map Responded rs') (upd_result ?init r) m
          (posted p gen N 0 c ?u ?w0)"
    by (rule sendLoop_accepted_new [OF u r _ m']) simp
  have tail: "sendLoop p gen N (enumerate 1 cs) (map Responded rs') result m w =
      (Returned (foldl upd_result result rs'),
       w\<lparr>calls := calls w + length (enumerate 1 cs),
         issued := issued w @ chunk_posts p gen N s (calls w) (enumerate 1 cs)\<rparr>)"
    for result w
    using sendLoop_with_messageID [OF t s lens(1) oks, of p gen N "[]" result w] by simp
  have run: "sendChunkedMessage p gen (map Responded rs) =
      sendLoop p gen N ((0, c) # enumerate 1 cs) (Responded r # map Responded rs') ?init
        JUndefined ?w0"
    by (simp add: sendChunkedMessage_def chunks rs Let_def N [symmetric] lens(2))
  have fin: "sendChunkedMessage p gen (map Responded rs) =
       (Returned (foldl upd_result ?init rs),
        \<lparr>issued = Post ?u c (post_config p (post_headers p (gen 0) 0 N))
                 # chunk_posts p gen N s 1 (enumerate 1 cs),
         calls = N, logged = []\<rparr>)"
    unfolding run first tail by (simp add: rs posted_def lens(2))
  show ?thesis
    by (rule exI [of _ c], rule exI [of _ cs], rule conjI [OF chunks fin])
qed

lemma sendChunkedMessage_pending:
  assumes "fst (sendChunkedMessage p gen replies) = Pending"
  shows "logged (snd (sendChunkedMessage p gen replies)) = []"
    and "sendChunkedMessage p gen (replies @ Failed e # rest)
           = send_catch e (snd (sendChunkedMessage p gen replies))"
    and "status r \<noteq> 202 \<Longrightarrow>
         sendChunkedMessage p gen (replies @ Responded r # rest)
           = (Exited 1, (snd (sendChunkedMessage p gen replies))
                \<lparr>logged := logged (snd (sendChunkedMessage p gen replies)) @ [wrong_status_line r]\<rparr>)"
proof -
  let ?n = "length (map compressData (splitIntoChunks (fileContent p)))"
  let ?entries = "enumerate 0 (map compressData (splitIntoChunks (fileContent p)))"
  let ?init = "\<lparr>result_status = None, result_data = JNull\<rparr>"
  let ?w0 = "\<lparr>issued = [], calls = 0, logged = []\<rparr>"
  have eq: "sendChunkedMessage p gen xs = sendLoop p gen ?n ?entries xs ?init JUndefined ?w0" for xs
    by (simp add: sendChunkedMessage_def Let_def)
  have "sendLoop p gen ?n ?entries replies ?init JUndefined ?w0
      = (Pending, snd (sendChunkedMessage p gen replies))"
    using assms by (simp add: eq prod_eq_iff)
  note facts = sendLoop_pending [OF this, of e rest r]
  show "logged (snd (sendChunkedMessage p gen replies)) = []"
    using facts by simp
  show "sendChunkedMessage p gen (replies @ Failed e # rest)
           = send_catch e (snd (sendChunkedMessage p gen replies))"
    using facts by (simp only: eq)
  show "sendChunkedMessage p gen (replies @ Responded r # rest)
           = (Exited 1, (snd (sendChunkedMessage p gen replies))
                \<lparr>logged := logged (snd (sendChunkedMessage p gen replies)) @ [wrong_status_line r]\<rparr>)"
    if "status r \<noteq> 202"
    using facts that by (simp add: eq)
qed

section \<open>The download loop\<close>

lemma js_less_NaN: "\<not> js_less NaN y" "\<not> js_less x NaN"
  by (cases y; simp) (cases x; simp)

lemma read_step_throws:
  "to_string (data r) = Inl e \<Longrightarrow>
   read_step p gen acc r w = Inl (Exited 1, w\<lparr>logged := logged w @ [ConsoleErrorObject e]\<rparr>)"
  by (simp add: read_step_def)

lemma read_step_no_header:
  "to_string (data r) = Inr body \<Longrightarrow> headers r ''mex-chunk-range'' = None \<Longrightarrow>
   read_step p gen acc r w =
     Inl (Exited 1,
          w\<lparr>logged := logged w @
             [ConsoleErrorObject (OtherError ''Cannot read properties of undefined (reading 'split')'')]\<rparr>)"
  by (simp add: read_step_def)

lemma read_step_not_less:
  "to_string (data r) = Inr body \<Longrightarrow> headers r ''mex-chunk-range'' = Some v \<Longrightarrow>
   \<not> js_less (fst (chunk_range_fields v)) (snd (chunk_range_fields v)) \<Longrightarrow>
   read_step p gen acc r w = Inl (Returned (Assembled 206 (acc @ body)), w)"
  by (cases "chunk_range_fields v") (simp add: read_step_def)

lemma read_step_less:
  "to_string (data r) = Inr body \<Longrightarrow> headers r ''mex-chunk-range'' = Some v \<Longrightarrow>
   js_less (fst (chunk_range_fields v)) (snd (chunk_range_fields v)) \<Longrightarrow>
   read_step p gen acc r w =
     Inr (acc @ body,
          w\<lparr>calls := Suc (calls w),
            issued := issued w @
              [Get (url p @ ''/messageexchange/'' @ mailboxID p @ ''/inbox/'' @ messageID p @ ''/''
                    @ number_to_string (js_succ (fst (chunk_range_fields v))))
                   (get_config p (gen (calls w)))]\<rparr>)"
  by (cases "chunk_range_fields v") (simp add: read_step_def Let_def)

lemma read_step_more:
  assumes "data r = JStr b"
    and "headers r ''mex-chunk-range'' = Some (show_nat k @ '':'' @ show_nat t)"
    and "k < t" and "t \<le> 2 ^ 53"
  shows "read_step p gen acc r w =
     Inr (acc @ b,
          w\<lparr>calls := Suc (calls w),
            issued := issued w @ [Get (chunk_url p (Suc k)) (get_config p (gen (calls w)))]\<rparr>)"
proof -
  have k: "k < 2 ^ 53" "k \<le> 2 ^ 53" using assms(3,4) by simp_all
  have f: "chunk_range_fields (show_nat k @ '':'' @ show_nat t) = (Fin (of_nat k), Fin (of_nat t))"
    using chunk_range_fields_show [OF k(2) assms(4)] by simp
  have n: "number_to_string (js_succ (Fin (of_nat k))) = show_nat (Suc k)"
    using k(1) by (simp only: js_succ_of_nat [OF k(1)] number_to_string_of_nat [of "Suc k"])
  have s: "to_string (data r) = Inr b" using assms(1) by simp
  show ?thesis
    using assms(3) by (simp only: read_step_less [OF s assms(2)] f fst_conv snd_conv n chunk_url_def
        js_less.simps of_nat_less_iff simp_thms if_True)
qed

lemma read_step_last:
  assumes "data r = JStr b"
    and "headers r ''mex-chunk-range'' = Some (show_nat t @ '':'' @ show_nat t)"
    and "t \<le> 2 ^ 53"
  shows "read_step p gen acc r w = Inl (Returned (Assembled 206 (acc @ b)), w)"
proof -
  have f: "chunk_range_fields (show_nat t @ '':'' @ show_nat t) = (Fin (of_nat t), Fin (of_nat t))"
    using chunk_range_fields_show [OF assms(3) assms(3)] by simp
  have s: "to_string (data r) = Inr b" using assms(1) by simp
  show ?thesis
    by (rule read_step_not_less [OF s assms(2)]) (simp only: f fst_conv snd_conv js_less.simps less_irrefl simp_thms)
qed

lemma read_step_Inl:
  "read_step p gen acc r w = Inl (out, w') \<Longrightarrow>
   issued w' = issued w \<and> calls w' = calls w \<and> out \<noteq> Pending \<and> (\<forall>e. out \<noteq> Rejected e)"
  by (auto simp: read_step_def Let_def split: option.splits prod.splits if_splits sum.splits)

lemma read_step_Inr:
  "read_step p gen acc r w = Inr (acc', w') \<Longrightarrow>
   \<exists>u. issued w' = issued w @ [Get u (get_config p (gen (calls w)))] \<and> calls w' = Suc (calls w)
     \<and> logged w' = logged w"
  by (auto simp: read_step_def Let_def split: option.splits prod.splits if_splits sum.splits)

lemma readLoop_done:
  "read_step p gen acc r w = Inl fin \<Longrightarrow> readLoop p gen acc r replies w = fin"
  by (subst readLoop.simps) simp

lemma readLoop_no_reply:
  "read_step p gen acc r w = Inr (acc', w') \<Longrightarrow> readLoop p gen acc r [] w = (Pending, w')"
  by (subst readLoop.simps) simp

lemma readLoop_failed:
  "read_step p gen acc r w = Inr (acc', w') \<Longrightarrow>
   readLoop p gen acc r (Failed e # replies) w
     = (Exited 1, w'\<lparr>logged := logged w' @ [ConsoleErrorObject e]\<rparr>)"
  by (subst readLoop.simps) simp

lemma readLoop_goes_on:
  "read_step p gen acc r w = Inr (acc', w') \<Longrightarrow>
   readLoop p gen acc r (Responded r' # replies) w = readLoop p gen acc' r' replies w'"
  by (subst readLoop.simps) simp

lemma readLoop_chunks:
  assumes "data r = JStr b"
    and "headers r ''mex-chunk-range'' = Some (show_nat k @ '':'' @ show_nat t)"
    and "k + length rs = t" and "t \<le> 2 ^ 53"
    and "\<forall>j < length rs. headers (rs ! j) ''mex-chunk-range''
           = Some (show_nat (Suc k + j) @ '':'' @ show_nat t)"
    and "map data rs = map JStr bs"
  shows "readLoop p gen acc r (map Responded rs @ rest) w =
    (Returned (Assembled 206 (acc @ b @ concat bs)),
     w\<lparr>calls := calls w + length rs,
       issued := issued w @
         map (\<lambda>j. Get (chunk_url p (Suc k + j)) (get_config p (gen (calls w + j)))) [0..<length rs]\<rparr>)"
  using assms
proof (induction rs arbitrary: k r acc w b bs)
  case Nil
  then have "k = t" "bs = []" by simp_all
  then show ?case
    using readLoop_done [OF read_step_last [OF Nil.prems(1) _ Nil.prems(4), of p gen acc w]]
      Nil.prems(2)
    by simp
next
  case (Cons r' rs)
  let ?w1 = "w\<lparr>calls := Suc (calls w),
            issued := issued w @ [Get (chunk_url p (Suc k)) (get_config p (gen (calls w)))]\<rparr>"
  obtain b' bs' where bs: "bs = b' # bs'" and b': "data r' = JStr b'"
    and bs': "map data rs = map JStr bs'"
    using Cons.prems(6) by (cases bs) auto
  have lt: "k < t" using Cons.prems(3) by simp
  have h: "headers r' ''mex-chunk-range'' = Some (show_nat (Suc k) @ '':'' @ show_nat t)"
    using Cons.prems(5) by fastforce
  have rest: "\<forall>j < length rs. headers (rs ! j) ''mex-chunk-range''
           = Some (show_nat (Suc (Suc k) + j) @ '':'' @ show_nat t)"
    using Cons.prems(5) by fastforce
  have len: "Suc k + length rs = t" using Cons.prems(3) by simp
  have step: "readLoop p gen acc r (map Responded (r' # rs) @ rest) w =
      readLoop p gen (acc @ b) r' (map Responded rs @ rest) ?w1"
    using readLoop_goes_on [OF read_step_more [OF Cons.prems(1,2) lt Cons.prems(4)]] by simp
  show ?case
    unfolding step Cons.IH [OF b' h len Cons.prems(4) rest bs']
    by (simp add: bs map_upt_Suc del: upt_Suc)
qed

lemma readLoop_pending:
  "readLoop p gen acc r replies w = (Pending, w') \<Longrightarrow>
   readLoop p gen acc r (replies @ Failed e # rest) w
     = (Exited 1, w'\<lparr>logged := logged w' @ [ConsoleErrorObject e]\<rparr>)"
proof (induction replies arbitrary: acc r w)
  case Nil
  show ?case
  proof (cases "read_step p gen acc r w")
    case (Inl fin)
    with Nil read_step_Inl [of p gen acc r w "fst fin" "snd fin"] show ?thesis
      by (simp add: readLoop_done [OF Inl])
  next
    case (Inr more)
    obtain acc' w1 where n: "more = (acc', w1)" by (cases more)
    with Nil Inr show ?thesis
      by (simp add: readLoop_no_reply [of p gen acc r w acc' w1]
          readLoop_failed [of p gen acc r w acc' w1])
  qed
next
  case (Cons reply replies)
  show ?case
  proof (cases "read_step p gen acc r w")
    case (Inl fin)
    with Cons.prems read_step_Inl [of p gen acc r w "fst fin" "snd fin"] show ?thesis
      by (simp add: readLoop_done [OF Inl])
  next
    case (Inr more)
    obtain acc' w1 where n: "more = (acc', w1)" by (cases more)
    note step = Inr [unfolded n]
    show ?thesis
    proof (cases reply)
      case (Failed e')
      with Cons.prems show ?thesis by (simp add: readLoop_failed [OF step])
    next
      case (Responded r')
      with Cons.prems have "readLoop p gen acc' r' replies w1 = (Pending, w')"
        by (simp add: readLoop_goes_on [OF step])
      from Cons.IH [OF this] show ?thesis
        by (simp add: Responded readLoop_goes_on [OF step])
    qed
  qed
qed

lemma readLoop_headers:
  assumes "calls w = length (issued w)" and "header_sets w = map gen [0..<calls w]"
  shows "calls (snd (readLoop p gen acc r replies w)) = length (issued (snd (readLoop p gen acc r replies w))) \<and>
         header_sets (snd (readLoop p gen acc r replies w))
           = map gen [0..<calls (snd (readLoop p gen acc r replies w))]"
  using assms
proof (induction replies arbitrary: acc r w)
  case Nil
  show ?case
  proof (cases "read_step p gen acc r w")
    case (Inl fin)
    have eq: "snd (readLoop p gen acc r [] w) = snd fin"
      by (simp add: readLoop_done [OF Inl])
    have "issued (snd fin) = issued w" "calls (snd fin) = calls w"
      using Inl read_step_Inl [of p gen acc r w "fst fin" "snd fin"] by simp_all
    then show ?thesis
      unfolding eq using Nil by (simp add: header_sets_def)
  next
    case (Inr more)
    obtain acc' w' where n: "more = (acc', w')" by (cases more)
    have eq: "snd (readLoop p gen acc r [] w) = w'"
      by (simp add: readLoop_no_reply [OF Inr [unfolded n]])
    from read_step_Inr [of p gen acc r w acc' w'] Inr n
    obtain u where "issued w' = issued w @ [Get u (get_config p (gen (calls w)))]"
      "calls w' = Suc (calls w)"
      by auto
    then show ?thesis
      unfolding eq using Nil by (simp add: header_sets_def get_config_def)
  qed
next
  case (Cons reply replies)
  show ?case
  proof (cases "read_step p gen acc r w")
    case (Inl fin)
    have eq: "snd (readLoop p gen acc r (reply # replies) w) = snd fin"
      by (simp add: readLoop_done [OF Inl])
    have "issued (snd fin) = issued w" "calls (snd fin) = calls w"
      using Inl read_step_Inl [of p gen acc r w "fst fin" "snd fin"] by simp_all
    then show ?thesis
      unfolding eq using Cons.prems by (simp add: header_sets_def)
  next
    case (Inr more)
    obtain acc' w' where n: "more = (acc', w')" by (cases more)
    note step = Inr [unfolded n]
    from read_step_Inr [OF step]
    obtain u where w': "issued w' = issued w @ [Get u (get_config p (gen (calls w)))]"
      "calls w' = Suc (calls w)"
      by auto
    have inv': "calls w' = length (issued w')" "header_sets w' = map gen [0..<calls w']"
      using Cons.prems w' by (simp_all add: header_sets_def get_config_def)
    show ?thesis
    proof (cases reply)
      case (Failed e)
      have eq: "snd (readLoop p gen acc r (reply # replies) w) =
          w'\<lparr>logged := logged w' @ [ConsoleErrorObject e]\<rparr>"
        by (simp add: Failed readLoop_failed [OF step])
      show ?thesis
        unfolding eq using inv' by (simp add: header_sets_def)
    next
      case (Responded r')
      have eq: "snd (readLoop p gen acc r (reply # replies) w) =
          snd (readLoop p gen acc' r' replies w')"
        by (simp add: Responded readLoop_goes_on [OF step])
      show ?thesis
        unfolding eq by (rule Cons.IH [OF inv'])
    qed
  qed
qed

lemma readMessage_headers:
  "calls (snd (readMessage p gen replies)) = length (issued (snd (readMessage p gen replies))) \<and>
   header_sets (snd (readMessage p gen replies)) = map gen [0..<calls (snd (readMessage p gen replies))]"
proof -
  let ?w1 = "\<lparr>issued = [Get (url p @ ''/messageexchange/'' @ mailboxID p @ ''/inbox/'' @ messageID p)
                        (get_config p (gen 0))],
              calls = 1, logged = []\<rparr>"
  have inv: "calls ?w1 = length (issued ?w1)" "header_sets ?w1 = map gen [0..<calls ?w1]"
    by (simp_all add: header_sets_def get_config_def)
  have same: "calls w' = length (issued w') \<and> header_sets w' = map gen [0..<calls w']"
    if "issued w' = issued ?w1" "calls w' = calls ?w1" for w'
    using inv that by (simp add: header_sets_def)
  show ?thesis
  proof (cases replies)
    case Nil
    have eq: "snd (readMessage p gen replies) = ?w1"
      using Nil by (simp add: readMessage_def Let_def)
    show ?thesis unfolding eq by (rule same) simp_all
  next
    case (Cons reply replies')
    show ?thesis
    proof (cases reply)
      case (Failed e)
      have eq: "snd (readMessage p gen replies) = ?w1"
        using Cons Failed by (simp add: readMessage_def Let_def)
      show ?thesis unfolding eq by (rule same) simp_all
    next
      case (Responded r)
      consider "status r = 200" | "status r = 206" | "status r \<noteq> 200" "status r \<noteq> 206"
        by blast
      then show ?thesis
      proof cases
        case 1
        have eq: "snd (readMessage p gen replies) = ?w1"
          using Cons Responded 1 by (simp add: readMessage_def Let_def)
        show ?thesis unfolding eq by (rule same) simp_all
      next
        case 2
        have eq: "snd (readMessage p gen replies) = snd (readLoop p gen [] r replies' ?w1)"
          using Cons Responded 2 by (simp add: readMessage_def Let_def)
        show ?thesis unfolding eq by (rule readLoop_headers [OF inv])
      next
        case 3
        have eq: "snd (readMessage p gen replies) = ?w1\<lparr>logged := logged ?w1 @
            [ConsoleError (''ERROR: Request 'getMessages' completed but responded with incorrect status: ''
                           @ show_nat (status r))]\<rparr>"
          using Cons Responded 3 by (simp add: readMessage_def Let_def)
        show ?thesis unfolding eq by (rule same) simp_all
      qed
    qed
  qed
qed

lemma readMessage_206:
  "status r = 206 \<Longrightarrow>
   readMessage p gen (Responded r # rest) =
     readLoop p gen [] r rest
       \<lparr>issued = [Get (url p @ ''/messageexchange/'' @ mailboxID p @ ''/inbox/'' @ messageID p)
                    (get_config p (gen 0))],
        calls = 1, logged = []\<rparr>"
  by (simp add: readMessage_def Let_def)

lemma readMessage_pending:
  assumes "fst (readMessage p gen replies) = Pending" and "replies \<noteq> []"
  shows "readMessage p gen (replies @ Failed e # rest)
     = (Exited 1, (snd (readMessage p gen replies))
          \<lparr>logged := logged (snd (readMessage p gen replies)) @ [ConsoleErrorObject e]\<rparr>)"
proof -
  from assms(2) obtain reply replies' where replies: "replies = reply # replies'"
    by (cases replies) auto
  show ?thesis
  proof (cases reply)
    case (Failed e')
    with assms(1) replies show ?thesis by (simp add: readMessage_def Let_def)
  next
    case (Responded r)
    have st: "status r = 206"
      using assms(1) replies Responded by (auto simp: readMessage_def Let_def split: if_splits)
    let ?w1 = "\<lparr>issued = [Get (url p @ ''/messageexchange/'' @ mailboxID p @ ''/inbox/'' @ messageID p)
                        (get_config p (gen 0))],
              calls = 1, logged = []\<rparr>"
    have "readLoop p gen [] r replies' ?w1 = (Pending, snd (readMessage p gen replies))"
      using assms(1) by (simp add: replies Responded readMessage_206 [OF st] prod_eq_iff)
    from readLoop_pending [OF this, of e rest] show ?thesis
      by (simp add: replies Responded readMessage_206 [OF st])
  qed
qed

section \<open>Upload sequencing\<close>

text \<open>
  C3 does not hold as it is stated. The payload \<open>two_chunks\<close> splits into two
  chunks. When both uploads are answered with 202 and the first answer carries no
  \<^verbatim>\<open>message_id\<close>, the operation returns normally and the second request goes to
  the collection endpoint again, with no identifier. When the first answer has a
  status other than 202, one request is issued, not two. When the first answer carries
  the identifier \<^verbatim>\<open>{"toString": "x"}\<close>, building the second URL throws a
  \<^verbatim>\<open>TypeError\<close>, which the operation returns after one request.
\<close>

theorem sendChunkedMessage_sequencing_counterexample:
  "length (splitIntoChunks two_chunks) = 2 \<and>
   fst (sendChunkedMessage (sample_send two_chunks) sample_gen
          [Responded (reply_with 202 (JStr ''accepted'')), Responded (reply_with 202 (JStr ''accepted''))])
     = Returned \<lparr>result_status = Some 202, result_data = JStr ''accepted''\<rparr> \<and>
   map req_url (issued (snd (sendChunkedMessage (sample_send two_chunks) sample_gen
          [Responded (reply_with 202 (JStr ''accepted'')), Responded (reply_with 202 (JStr ''accepted''))])))
     = [''https://mesh.example/messageexchange/X26ABC1/outbox'',
        ''https://mesh.example/messageexchange/X26ABC1/outbox''] \<and>
   fst (sendChunkedMessage (sample_send two_chunks) sample_gen
          [Responded (reply_with 200 (JObj [(''message_id'', JStr ''M1'')])),
           Responded (reply_with 202 (JStr ''accepted''))])
     = Exited 1 \<and>
   length (issued (snd (sendChunkedMessage (sample_send two_chunks) sample_gen
          [Responded (reply_with 200 (JObj [(''message_id'', JStr ''M1'')])),
           Responded (reply_with 202 (JStr ''accepted''))]))) = 1 \<and>
   fst (sendChunkedMessage (sample_send two_chunks) sample_gen
          [Responded (reply_with 202 (JObj [(''message_id'', JObj [(''toString'', JStr ''x'')])])),
           Responded (reply_with 202 (JStr ''accepted''))])
     = ReturnedError (OtherError ''Cannot convert object to primitive value'') \<and>
   length (issued (snd (sendChunkedMessage (sample_send two_chunks) sample_gen
          [Responded (reply_with 202 (JObj [(''message_id'', JObj [(''toString'', JStr ''x'')])])),
           Responded (reply_with 202 (JStr ''accepted''))]))) = 1"
  by (simp add: sendChunkedMessage_def split_two_chunks sample_send_def reply_with_def
      compressData_def post_url_def send_catch_def sendLoop.simps Let_def)

text \<open>
  C3, as amended. Let the payload split into \<open>N > 1\<close> chunks, let every one of the
  \<open>N\<close> uploads be answered with status 202, and let the data of the first answer
  have a truthy \<^verbatim>\<open>message_id\<close>, \<open>m\<close>, that the URL template converts to the
  string \<open>s\<close> (\<open>m\<close> itself when it is a string, its decimal form when it is a number).
  Then \<open>sendChunkedMessage\<close> issues exactly \<open>N\<close> POST requests, in the order of the
  chunks: the first to the collection endpoint, with no identifier in its URL; request
  \<open>k\<close> for \<open>k\<close> from 2 to \<open>N\<close> (at position \<open>k - 1\<close> of the list) to the endpoint
  made of \<open>s\<close> and the index \<open>k\<close>; and the \<^verbatim>\<open>mex-chunk-range\<close> header of request
  \<open>k\<close> is \<open>k:N\<close>.
\<close>

theorem sendChunkedMessage_sequencing:
  assumes "N = length (splitIntoChunks (fileContent p))" and "1 < N"
    and "length rs = N" and "\<forall>r \<in> set rs. status r = 202"
    and "message_id_of (data (rs ! 0)) = Inr m" and "truthy m" and "to_string m = Inr s"
  shows "length (issued (snd (sendChunkedMessage p gen (map Responded rs)))) = N \<and>
    issued (snd (sendChunkedMessage p gen (map Responded rs))) ! 0 =
      Post (url p @ ''/messageexchange/'' @ mailboxID p @ ''/outbox'')
           (compressData (splitIntoChunks (fileContent p) ! 0))
           (post_config p (post_headers p (gen 0) 0 N)) \<and>
    (\<forall>k. 1 \<le> k \<and> k < N \<longrightarrow>
       issued (snd (sendChunkedMessage p gen (map Responded rs))) ! k =
         Post (url p @ ''/messageexchange/'' @ mailboxID p @ ''/outbox/'' @ s
                 @ ''/'' @ show_nat (k + 1))
              (compressData (splitIntoChunks (fileContent p) ! k))
              (post_config p (post_headers p (gen k) k N))) \<and>
    (\<forall>k < N. cfg_headers (req_config (issued (snd (sendChunkedMessage p gen (map Responded rs))) ! k))
                ''mex-chunk-range'' = Some (show_nat (k + 1) @ '':'' @ show_nat N))"
proof -
  let ?w = "snd (sendChunkedMessage p gen (map Responded rs))"
  have "0 < N" using assms(2) by simp
  from sendChunkedMessage_accepted [OF assms(1) this assms(3-7), of gen]
  obtain c cs where chunks: "map compressData (splitIntoChunks (fileContent p)) = c # cs"
    and w: "?w = \<lparr>issued = Post (url p @ ''/messageexchange/'' @ mailboxID p @ ''/outbox'') c
                     (post_config p (post_headers p (gen 0) 0 N))
                 # chunk_posts p gen N s 1 (enumerate 1 cs),
        calls = N, logged = []\<rparr>"
    by auto
  have N: "N = Suc (length cs)"
    using assms(1) chunks by (simp flip: length_map [of compressData])
  have nth: "compressData (splitIntoChunks (fileContent p) ! k) = (c # cs) ! k" if "k < N" for k
    using that assms(1) by (simp flip: chunks)
  have first: "issued ?w ! 0 =
      Post (url p @ ''/messageexchange/'' @ mailboxID p @ ''/outbox'')
           (compressData (splitIntoChunks (fileContent p) ! 0))
           (post_config p (post_headers p (gen 0) 0 N))"
    using nth [of 0] \<open>1 < N\<close> by (simp add: w)
  have later: "issued ?w ! k =
         Post (url p @ ''/messageexchange/'' @ mailboxID p @ ''/outbox/'' @ s
                 @ ''/'' @ show_nat (k + 1))
              (compressData (splitIntoChunks (fileContent p) ! k))
              (post_config p (post_headers p (gen k) k N))" if k1: "1 \<le> k" and kN: "k < N" for k
  proof -
    obtain j where j: "k = Suc j" using k1 by (cases k) auto
    then have "j < length cs" using kN N by simp
    then show ?thesis
      using nth [OF kN] by (simp add: w j chunk_posts_nth)
  qed
  have range: "cfg_headers (req_config (issued ?w ! k)) ''mex-chunk-range''
      = Some (show_nat (k + 1) @ '':'' @ show_nat N)" if "k < N" for k
  proof (cases k)
    case 0
    then show ?thesis using first by (simp add: post_config_def post_headers_def)
  next
    case (Suc j)
    then show ?thesis using later [of k] that by (simp add: post_config_def post_headers_def)
  qed
  have "length (issued ?w) = N"
    by (simp add: w length_chunk_posts N)
  with first later range show ?thesis by blast
qed

text \<open>The hypotheses of C3 hold for the two chunks of \<open>two_chunks\<close>.\<close>

theorem sendChunkedMessage_sequencing_witness:
  "(2::nat) = length (splitIntoChunks (fileContent (sample_send two_chunks))) \<and> (1::nat) < 2 \<and>
   length [reply_with 202 (JObj [(''message_id'', JStr ''M1'')]), reply_with 202 (JStr [])] = 2 \<and>
   list_all (\<lambda>r. status r = 202)
     [reply_with 202 (JObj [(''message_id'', JStr ''M1'')]), reply_with 202 (JStr [])] \<and>
   message_id_of (data ([reply_with 202 (JObj [(''message_id'', JStr ''M1'')]), reply_with 202 (JStr [])] ! 0))
     = Inr (JStr ''M1'') \<and>
   truthy (JStr ''M1'') \<and> to_string (JStr ''M1'') = Inr ''M1'' \<and>
   length (issued (snd (sendChunkedMessage (sample_send two_chunks) sample_gen
     (map Responded [reply_with 202 (JObj [(''message_id'', JStr ''M1'')]), reply_with 202 (JStr [])])))) = 2 \<and>
   map req_url (issued (snd (sendChunkedMessage (sample_send two_chunks) sample_gen
     (map Responded [reply_with 202 (JObj [(''message_id'', JStr ''M1'')]), reply_with 202 (JStr [])])))) =
     [''https://mesh.example/messageexchange/X26ABC1/outbox'',
      ''https://mesh.example/messageexchange/X26ABC1/outbox/M1/2''] \<and>
   cfg_headers (req_config (issued (snd (sendChunkedMessage (sample_send two_chunks) sample_gen
     (map Responded [reply_with 202 (JObj [(''message_id'', JStr ''M1'')]), reply_with 202 (JStr [])]))) ! 1))
     ''mex-chunk-range'' = Some ''2:2''"
proof -
  let ?rs = "[reply_with 202 (JObj [(''message_id'', JStr ''M1'')]), reply_with 202 (JStr [])]"
  let ?p = "sample_send two_chunks"
  let ?w = "snd (sendChunkedMessage ?p sample_gen (map Responded ?rs))"
  have h1: "(2::nat) = length (splitIntoChunks (fileContent ?p))"
    by (simp add: sample_send_def split_two_chunks)
  have h2: "(1::nat) < 2" by simp
  have h3: "length ?rs = 2" by simp
  have h4: "\<forall>r \<in> set ?rs. status r = 202" by (simp add: reply_with_def)
  have h5: "message_id_of (data (?rs ! 0)) = Inr (JStr ''M1'')" by (simp add: reply_with_def)
  have h6: "truthy (JStr ''M1'')" by simp
  have h7: "to_string (JStr ''M1'') = Inr ''M1''" by simp
  note seq = sendChunkedMessage_sequencing [OF h1 h2 h3 h4 h5 h6 h7, of sample_gen]
  from seq have len: "length (issued ?w) = 2" by (rule conjunct1)
  from seq have q0: "req_url (issued ?w ! 0) = ''https://mesh.example/messageexchange/X26ABC1/outbox''"
    by (simp add: sample_send_def)
  from seq have "1 \<le> (1::nat) \<and> (1::nat) < 2 \<longrightarrow> req_url (issued ?w ! 1) =
      url ?p @ ''/messageexchange/'' @ mailboxID ?p @ ''/outbox/'' @ ''M1''
        @ ''/'' @ show_nat (1 + 1)"
    by (metis request.sel(1))
  then have q1: "req_url (issued ?w ! 1) = ''https://mesh.example/messageexchange/X26ABC1/outbox/M1/2''"
    by (simp add: sample_send_def show_nat_Suc_Suc_0)
  have urls: "map req_url (issued ?w) =
     [''https://mesh.example/messageexchange/X26ABC1/outbox'',
      ''https://mesh.example/messageexchange/X26ABC1/outbox/M1/2'']"
    using len q0 q1 by (simp add: list_eq_iff_nth_eq less_Suc_eq numeral_2_eq_2)
  from seq have "(1::nat) < 2 \<longrightarrow> cfg_headers (req_config (issued ?w ! 1)) ''mex-chunk-range''
      = Some (show_nat (1 + 1) @ '':'' @ show_nat 2)"
    by blast
  then have range: "cfg_headers (req_config (issued ?w ! 1)) ''mex-chunk-range'' = Some ''2:2''"
    by (simp add: show_nat_2 show_nat_Suc_Suc_0)
  show ?thesis
    using h1 h5 len urls range by (simp add: reply_with_def)
qed

section \<open>The result of a send\<close>




section \<open>Responses with a wrong status\<close>




section \<open>Requests that fail\<close>

text \<open>
  C8 does not hold as it is stated: in \<open>readMessage\<close> the first request stands
  outside the \<^verbatim>\<open>try\<close> block, so its failure rejects the promise, and the
  \<^verbatim>\<open>catch\<close> block ends the process when a later request fails.
\<close>

theorem send_failure_returned_counterexample:
  "fst (readMessage sample_read sample_gen [Failed NoResponse]) = Rejected NoResponse \<and>
   fst (readMessage sample_read sample_gen
          [Responded (chunk_reply 206 ''1:2'' (JStr ''a'')), Failed NoResponse]) = Exited 1"
  by (simp add: readMessage_def readLoop.simps read_step_def chunk_reply_def
      chunk_range_fields_examples Let_def)

text \<open>
  C8, as amended. In a send operation, whatever was received before: when the operation
  waits for the answer to a request and the request fails, the error is caught and the
  operation returns it to its caller, after one line in the error log that tells the
  three cases apart (the server answered with an error status, no response was
  received, the request could not be set up), and issues no further request. A send
  operation ends the process only after a response whose status is not 202, and its
  promise is never rejected. A receive operation never returns a failure of a request:
  its promise is rejected when the first request fails, and the process ends when a
  later request fails.
\<close>

theorem send_failure_returned:
  "(fst (sendChunkedMessage p gen replies) = Pending \<longrightarrow>
      fst (sendChunkedMessage p gen (replies @ Failed e # rest)) = ReturnedError e \<and>
      issued (snd (sendChunkedMessage p gen (replies @ Failed e # rest)))
        = issued (snd (sendChunkedMessage p gen replies)) \<and>
      logged (snd (sendChunkedMessage p gen (replies @ Failed e # rest))) =
        [LogError (case e of
           HttpError x \<Rightarrow> ''Request failed with status code '' @ show_nat (status x) @ '': '' @ statusText x
         | NoResponse \<Rightarrow> ''No response was received for the request''
         | OtherError message \<Rightarrow> ''Error: '' @ message)]) \<and>
   (\<forall>replies c. fst (sendChunkedMessage p gen replies) = Exited c \<longrightarrow>
      (\<exists>x. Responded x \<in> set replies \<and> status x \<noteq> 202)) \<and>
   (\<forall>replies e. fst (sendChunkedMessage p gen replies) \<noteq> Rejected e) \<and>
   fst (readMessage q gen' (Failed e' # rest')) = Rejected e' \<and>
   (fst (readMessage q gen' replies') = Pending \<and> replies' \<noteq> [] \<longrightarrow>
      fst (readMessage q gen' (replies' @ Failed e' # rest')) = Exited 1)"
proof (intro conjI impI allI)
  assume pending: "fst (sendChunkedMessage p gen replies) = Pending"
  note run = sendChunkedMessage_pending(2) [OF pending, of e rest]
  show "fst (sendChunkedMessage p gen (replies @ Failed e # rest)) = ReturnedError e"
    unfolding run by (rule send_catch_outcome)
  show "issued (snd (sendChunkedMessage p gen (replies @ Failed e # rest)))
        = issued (snd (sendChunkedMessage p gen replies))"
    unfolding run by (rule send_catch_world)
  show "logged (snd (sendChunkedMessage p gen (replies @ Failed e # rest))) =
        [LogError (case e of
           HttpError x \<Rightarrow> ''Request failed with status code '' @ show_nat (status x) @ '': '' @ statusText x
         | NoResponse \<Rightarrow> ''No response was received for the request''
         | OtherError message \<Rightarrow> ''Error: '' @ message)]"
    unfolding run
    by (cases e) (simp_all add: send_catch_def sendChunkedMessage_pending(1) [OF pending])
next
  fix replies c
  assume "fst (sendChunkedMessage p gen replies) = Exited c"
  then show "\<exists>x. Responded x \<in> set replies \<and> status x \<noteq> 202"
    unfolding sendChunkedMessage_def Let_def by (rule sendLoop_exit_cause)
next
  fix replies e
  show "fst (sendChunkedMessage p gen replies) \<noteq> Rejected e"
    unfolding sendChunkedMessage_def Let_def by (rule sendLoop_never_rejected)
next
  show "fst (readMessage q gen' (Failed e' # rest')) = Rejected e'"
    by (simp add: readMessage_def Let_def)
next
  assume "fst (readMessage q gen' replies') = Pending \<and> replies' \<noteq> []"
  then have pending: "fst (readMessage q gen' replies') = Pending" and ne: "replies' \<noteq> []"
    by simp_all
  show "fst (readMessage q gen' (replies' @ Failed e' # rest')) = Exited 1"
    unfolding readMessage_pending [OF pending ne, of e' rest'] by simp
qed

text \<open>
  The hypotheses of C8 hold for a second upload that gets no response; a first upload
  answered with 200 ends the process; a download whose second request gets no response
  ends the process.
\<close>

theorem send_failure_returned_witness:
  "fst (sendChunkedMessage (sample_send two_chunks) sample_gen
     [Responded (reply_with 202 (JObj [(''message_id'', JStr ''M1'')]))]) = Pending \<and>
   sendChunkedMessage (sample_send two_chunks) sample_gen
     ([Responded (reply_with 202 (JObj [(''message_id'', JStr ''M1'')]))] @ Failed NoResponse # [])
     = (ReturnedError NoResponse,
        \<lparr>issued = issued (snd (sendChunkedMessage (sample_send two_chunks) sample_gen
                     [Responded (reply_with 202 (JObj [(''message_id'', JStr ''M1'')]))])),
         calls = 2,
         logged = [LogError ''No response was received for the request'']\<rparr>) \<and>
   fst (sendChunkedMessage (sample_send two_chunks) sample_gen [Responded (reply_with 200 (JStr ''OK''))])
     = Exited 1 \<and>
   Responded (reply_with 200 (JStr ''OK'')) \<in> set [Responded (reply_with 200 (JStr ''OK''))] \<and>
   status (reply_with 200 (JStr ''OK'')) \<noteq> 202 \<and>
   fst (readMessage sample_read sample_gen [Responded (chunk_reply 206 ''1:2'' (JStr ''a''))]) = Pending \<and>
   [Responded (chunk_reply 206 ''1:2'' (JStr ''a''))] \<noteq> [] \<and>
   fst (readMessage sample_read sample_gen
     ([Responded (chunk_reply 206 ''1:2'' (JStr ''a''))] @ Failed NoResponse # [])) = Exited 1"
proof -
  let ?s = "[Responded (reply_with 202 (JObj [(''message_id'', JStr ''M1'')]))]"
  let ?d = "[Responded (chunk_reply 206 ''1:2'' (JStr ''a''))]"
  have h1: "fst (sendChunkedMessage (sample_send two_chunks) sample_gen ?s) = Pending"
    and c1: "calls (snd (sendChunkedMessage (sample_send two_chunks) sample_gen
               (?s @ Failed NoResponse # []))) = 2"
    by (simp_all add: sendChunkedMessage_def split_two_chunks sample_send_def reply_with_def
        compressData_def post_url_def send_catch_def sendLoop.simps Let_def)
  have h2: "fst (sendChunkedMessage (sample_send two_chunks) sample_gen
      [Responded (reply_with 200 (JStr ''OK''))]) = Exited 1"
    by (simp add: sendChunkedMessage_def split_two_chunks sample_send_def reply_with_def
        compressData_def post_url_def sendLoop.simps Let_def)
  have h3: "fst (readMessage sample_read sample_gen ?d) = Pending"
    by (simp add: readMessage_def readLoop.simps read_step_def chunk_reply_def
        chunk_range_fields_examples Let_def)
  note facts = send_failure_returned [of "sample_send two_chunks" sample_gen ?s NoResponse "[]"
      sample_read sample_gen NoResponse "[]" ?d]
  have run: "sendChunkedMessage (sample_send two_chunks) sample_gen (?s @ Failed NoResponse # [])
     = (ReturnedError NoResponse,
        \<lparr>issued = issued (snd (sendChunkedMessage (sample_send two_chunks) sample_gen ?s)),
         calls = 2,
         logged = [LogError ''No response was received for the request'']\<rparr>)"
    using facts h1 c1 by (simp add: prod_eq_iff world.equality)
  have d: "fst (readMessage sample_read sample_gen (?d @ Failed NoResponse # [])) = Exited 1"
    using facts h3 by simp
  show ?thesis
    using h1 h2 h3 run d by (simp add: reply_with_def)
qed

section \<open>Fresh headers\<close>

text \<open>
  C9 does not hold as it is stated: \<^verbatim>\<open>generateHeaders\<close> is invoked before the URL
  of the chunk is built. With two chunks and a first answer whose \<^verbatim>\<open>message_id\<close> is
  \<^verbatim>\<open>{"toString": "x"}\<close>, the second invocation is followed by a \<^verbatim>\<open>TypeError\<close>
  and not by a request: the provider has been invoked twice and one request was issued.
\<close>

theorem header_freshness_counterexample:
  "calls (snd (sendChunkedMessage (sample_send two_chunks) sample_gen
          [Responded (reply_with 202 (JObj [(''message_id'', JObj [(''toString'', JStr ''x'')])])),
           Responded (reply_with 202 (JStr ''accepted''))])) = 2 \<and>
   length (issued (snd (sendChunkedMessage (sample_send two_chunks) sample_gen
          [Responded (reply_with 202 (JObj [(''message_id'', JObj [(''toString'', JStr ''x'')])])),
           Responded (reply_with 202 (JStr ''accepted''))]))) = 1"
  by (simp add: sendChunkedMessage_def split_two_chunks sample_send_def reply_with_def
      compressData_def post_url_def send_catch_def sendLoop.simps Let_def)

text \<open>
  C9, as amended. In every send and every receive operation, however it ends, request
  number \<open>k\<close> uses the header set of invocation number \<open>k\<close> of \<^verbatim>\<open>generateHeaders\<close>
  (for an upload, with the fields that the loop adds to it). In a receive operation the
  provider has been invoked exactly as many times as requests were issued; in a send
  operation too, except when the operation returns the \<^verbatim>\<open>TypeError\<close> of an
  identifier that cannot be converted to a string, where the provider has been invoked
  once more and that last header set is not used. Provided that the provider never
  returns the same header set twice, no two requests of one operation have the same
  header set.
\<close>

theorem header_freshness:
  assumes "inj gen"
  shows "(calls (snd (sendChunkedMessage p gen replies))
            = length (issued (snd (sendChunkedMessage p gen replies))) \<or>
          calls (snd (sendChunkedMessage p gen replies))
            = Suc (length (issued (snd (sendChunkedMessage p gen replies)))) \<and>
          fst (sendChunkedMessage p gen replies)
            = ReturnedError (OtherError ''Cannot convert object to primitive value'')) \<and>
    (\<forall>k < length (issued (snd (sendChunkedMessage p gen replies))).
        cfg_headers (req_config (issued (snd (sendChunkedMessage p gen replies)) ! k))
          = post_headers p (gen k) k (length (splitIntoChunks (fileContent p)))) \<and>
    distinct (map (\<lambda>q. cfg_headers (req_config q)) (issued (snd (sendChunkedMessage p gen replies)))) \<and>
    calls (snd (readMessage q gen replies'))
           = length (issued (snd (readMessage q gen replies'))) \<and>
    (\<forall>k < length (issued (snd (readMessage q gen replies'))).
        cfg_headers (req_config (issued (snd (readMessage q gen replies')) ! k)) = gen k) \<and>
    distinct (map (\<lambda>q. cfg_headers (req_config q)) (issued (snd (readMessage q gen replies'))))"
proof -
  let ?s = "snd (sendChunkedMessage p gen replies)"
  let ?r = "snd (readMessage q gen replies')"
  let ?f = "\<lambda>k. post_headers p (gen k) k (length (splitIntoChunks (fileContent p)))"
  from sendChunkedMessage_headers [of p gen replies]
  have s1: "calls ?s = length (issued ?s) \<or>
      calls ?s = Suc (length (issued ?s)) \<and>
      fst (sendChunkedMessage p gen replies)
        = ReturnedError (OtherError ''Cannot convert object to primitive value'')"
    and s2: "map (\<lambda>q. cfg_headers (req_config q)) (issued ?s) = map ?f [0..<length (issued ?s)]"
    by (simp_all add: header_sets_def)
  from readMessage_headers [of q gen replies']
  have r1: "calls ?r = length (issued ?r)"
    and r2: "map (\<lambda>q. cfg_headers (req_config q)) (issued ?r) = map gen [0..<length (issued ?r)]"
    by (simp_all add: header_sets_def)
  have s3: "\<forall>k < length (issued ?s). cfg_headers (req_config (issued ?s ! k)) = ?f k"
    using nth_map [of _ "issued ?s" "\<lambda>q. cfg_headers (req_config q)"] s2 by simp
  have r3: "\<forall>k < length (issued ?r). cfg_headers (req_config (issued ?r ! k)) = gen k"
    using nth_map [of _ "issued ?r" "\<lambda>q. cfg_headers (req_config q)"] r2 by simp
  have "inj ?f"
    by (rule injI) (rule post_headers_inj)
  then have s4: "distinct (map (\<lambda>q. cfg_headers (req_config q)) (issued ?s))"
    unfolding s2 by (simp add: distinct_map inj_on_def)
  have r4: "distinct (map (\<lambda>q. cfg_headers (req_config q)) (issued ?r))"
    unfolding r2 using assms by (simp add: distinct_map inj_on_def)
  show ?thesis
    by (intro conjI s1 s3 s4 r1 r3 r4)
qed

text \<open>
  The sample provider never repeats a header set; two requests of a download and of an
  upload have distinct header sets.
\<close>

theorem header_freshness_witness:
  "inj sample_gen \<and>
   calls (snd (readMessage sample_read sample_gen
     [Responded (chunk_reply 206 ''1:2'' (JStr ''a'')), Responded (chunk_reply 200 ''2:2'' (JStr ''b''))])) = 2 \<and>
   length (issued (snd (readMessage sample_read sample_gen
     [Responded (chunk_reply 206 ''1:2'' (JStr ''a'')), Responded (chunk_reply 200 ''2:2'' (JStr ''b''))]))) = 2 \<and>
   distinct (map (\<lambda>q. cfg_headers (req_config q)) (issued (snd (readMessage sample_read sample_gen
     [Responded (chunk_reply 206 ''1:2'' (JStr ''a'')), Responded (chunk_reply 200 ''2:2'' (JStr ''b''))])))) \<and>
   length (issued (snd (sendChunkedMessage (sample_send two_chunks) sample_gen
     [Responded (reply_with 202 (JObj [(''message_id'', JStr ''M1'')])), Responded (reply_with 202 (JStr []))]))) = 2 \<and>
   distinct (map (\<lambda>q. cfg_headers (req_config q)) (issued (snd (sendChunkedMessage (sample_send two_chunks) sample_gen
     [Responded (reply_with 202 (JObj [(''message_id'', JStr ''M1'')])), Responded (reply_with 202 (JStr []))]))))"
proof -
  let ?rr = "[Responded (chunk_reply 206 ''1:2'' (JStr ''a'')), Responded (chunk_reply 200 ''2:2'' (JStr ''b''))]"
  let ?sr = "[Responded (reply_with 202 (JObj [(''message_id'', JStr ''M1'')])), Responded (reply_with 202 (JStr []))]"
  have r: "length (issued (snd (readMessage sample_read sample_gen ?rr))) = 2"
    by (simp add: readMessage_def readLoop.simps read_step_def chunk_reply_def
        chunk_range_fields_examples Let_def)
  have s: "length (issued (snd (sendChunkedMessage (sample_send two_chunks) sample_gen ?sr))) = 2"
    by (simp add: sendChunkedMessage_def split_two_chunks sample_send_def reply_with_def
        compressData_def post_url_def sendLoop.simps Let_def)
  from header_freshness [OF inj_sample_gen, of "sample_send two_chunks" ?sr sample_read ?rr] r s
    inj_sample_gen
  show ?thesis by simp
qed

section \<open>A download in several parts\<close>

text \<open>
  C6 does not hold as it is stated. \<^verbatim>\<open>chunkedMessage += response.data\<close> converts
  each body to a string. With the ranges \<open>1:2\<close> and \<open>2:2\<close> and the bodies
  \<^verbatim>\<open>{"a": "b"}\<close> and \<^verbatim>\<open>null\<close>, \<open>readMessage\<close> returns the data
  \<open>[object Object]null\<close>, which holds nothing of the first body. With one response of
  range \<open>1:1\<close> whose body is \<^verbatim>\<open>{"toString": "x"}\<close> the conversion throws, and
  \<open>readMessage\<close> ends the process instead of returning. And \<^verbatim>\<open>Number\<close> rounds the
  fields of a range to doubles: a response with the range
  \<open>9007199254740992:9007199254740993\<close> is taken for the last one.
\<close>

theorem readMessage_multi_part_counterexample:
  "fst (readMessage sample_read sample_gen
          [Responded (chunk_reply 206 ''1:2'' (JObj [(''a'', JStr ''b'')])),
           Responded (chunk_reply 206 ''2:2'' JNull)])
     = Returned (Assembled 206 ''[object Object]null'') \<and>
   readMessage sample_read sample_gen
          [Responded (chunk_reply 206 ''1:1'' (JObj [(''toString'', JStr ''x'')]))]
     = (Exited 1,
        \<lparr>issued = [Get ''https://mesh.example/messageexchange/X26ABC1/inbox/M1''
                     (get_config sample_read (sample_gen 0))],
         calls = 1,
         logged = [ConsoleErrorObject (OtherError ''Cannot convert object to primitive value'')]\<rparr>) \<and>
   readMessage sample_read sample_gen
          [Responded (chunk_reply 206 ''9007199254740992:9007199254740993'' (JStr ''a''))]
     = (Returned (Assembled 206 ''a''),
        \<lparr>issued = [Get ''https://mesh.example/messageexchange/X26ABC1/inbox/M1''
                     (get_config sample_read (sample_gen 0))],
         calls = 1, logged = []\<rparr>)"
  by (simp add: readMessage_def readLoop.simps read_step_def chunk_reply_def sample_read_def
      chunk_range_fields_examples chunk_range_fields_above_safe Let_def del: js_succ.simps)

text \<open>
  C6, as amended. Let the first response have status 206, let the \<open>T\<close> responses
  carry the chunk ranges \<open>1:T\<close>, \<open>2:T\<close>, \<open>\<dots>\<close>, \<open>T:T\<close>, with \<open>T\<close> at most
  \<open>2 ^ 53\<close>, and let every body be a string. Then \<open>readMessage\<close> issues exactly \<open>T\<close>
  requests, the first to the endpoint of the identifier and request \<open>k\<close> (from 2 on) to
  the endpoint of the identifier and the index \<open>k\<close>, each with the header set of its
  own invocation of the provider, and returns \<^verbatim>\<open>{status: 206, data: D}\<close> where
  \<open>D\<close> is the concatenation of the bodies in the order they were fetched. The status
  returned is 206 whatever the status of the later responses.
\<close>

theorem readMessage_multi_part:
  assumes "1 \<le> T" and "T \<le> 2 ^ 53" and "length rs = T"
    and "status (rs ! 0) = 206"
    and "\<forall>k < T. headers (rs ! k) ''mex-chunk-range'' = Some (show_nat (k + 1) @ '':'' @ show_nat T)"
    and "map data rs = map JStr bodies"
  shows "readMessage p gen (map Responded rs) =
    (Returned (Assembled 206 (concat bodies)),
     \<lparr>issued =
        map (\<lambda>k. Get (if k = 0
                       then url p @ ''/messageexchange/'' @ mailboxID p @ ''/inbox/'' @ messageID p
                       else url p @ ''/messageexchange/'' @ mailboxID p @ ''/inbox/'' @ messageID p
                            @ ''/'' @ show_nat (k + 1))
                   (get_config p (gen k)))
          [0..<T],
      calls = T, logged = []\<rparr>)"
proof -
  obtain r rs' where rs: "rs = r # rs'"
    using assms(1,3) by (cases rs) auto
  obtain b bs where bodies: "bodies = b # bs" and b: "data r = JStr b"
    and bs: "map data rs' = map JStr bs"
    using assms(6) rs by (cases bodies) auto
  have r: "status r = 206" using assms(4) rs by simp
  have h: "headers r ''mex-chunk-range'' = Some (show_nat 1 @ '':'' @ show_nat T)"
    using assms(1,5) rs by fastforce
  have len: "1 + length rs' = T" using assms(3) rs by simp
  have hs: "\<forall>j < length rs'. headers (rs' ! j) ''mex-chunk-range''
           = Some (show_nat (Suc 1 + j) @ '':'' @ show_nat T)"
    using assms(3,5) rs by fastforce
  note loop = readLoop_chunks [OF b h len assms(2) hs bs, of p gen "[]" "[]", simplified]
  show ?thesis
    by (simp add: readMessage_206 [OF r] rs bodies loop len [symmetric] map_upt_Suc chunk_url_def
        del: upt_Suc)
qed

text \<open>
  The hypotheses of C6 hold for three responses with statuses 206, 206, 200, ranges
  \<open>1:3\<close>, \<open>2:3\<close>, \<open>3:3\<close> and bodies \<open>a\<close>, \<open>b\<close>, \<open>c\<close>.
\<close>

theorem readMessage_multi_part_witness:
  "(1::nat) \<le> 3 \<and> (3::nat) \<le> 2 ^ 53 \<and>
   length [chunk_reply 206 ''1:3'' (JStr ''a''), chunk_reply 206 ''2:3'' (JStr ''b''),
           chunk_reply 200 ''3:3'' (JStr ''c'')] = 3 \<and>
   status ([chunk_reply 206 ''1:3'' (JStr ''a''), chunk_reply 206 ''2:3'' (JStr ''b''),
            chunk_reply 200 ''3:3'' (JStr ''c'')] ! 0) = 206 \<and>
   map (\<lambda>r. headers r ''mex-chunk-range'')
     [chunk_reply 206 ''1:3'' (JStr ''a''), chunk_reply 206 ''2:3'' (JStr ''b''),
      chunk_reply 200 ''3:3'' (JStr ''c'')]
     = map (\<lambda>k. Some (show_nat (k + 1) @ '':'' @ show_nat 3)) [0, 1, 2] \<and>
   map data [chunk_reply 206 ''1:3'' (JStr ''a''), chunk_reply 206 ''2:3'' (JStr ''b''),
             chunk_reply 200 ''3:3'' (JStr ''c'')] = map JStr [''a'', ''b'', ''c''] \<and>
   fst (readMessage sample_read sample_gen (map Responded
     [chunk_reply 206 ''1:3'' (JStr ''a''), chunk_reply 206 ''2:3'' (JStr ''b''),
      chunk_reply 200 ''3:3'' (JStr ''c'')]))
     = Returned (Assembled 206 ''abc'') \<and>
   map req_url (issued (snd (readMessage sample_read sample_gen (map Responded
     [chunk_reply 206 ''1:3'' (JStr ''a''), chunk_reply 206 ''2:3'' (JStr ''b''),
      chunk_reply 200 ''3:3'' (JStr ''c'')]))))
     = [''https://mesh.example/messageexchange/X26ABC1/inbox/M1'',
        ''https://mesh.example/messageexchange/X26ABC1/inbox/M1/2'',
        ''https://mesh.example/messageexchange/X26ABC1/inbox/M1/3'']"
proof -
  let ?rs = "[chunk_reply 206 ''1:3'' (JStr ''a''), chunk_reply 206 ''2:3'' (JStr ''b''),
              chunk_reply 200 ''3:3'' (JStr ''c'')]"
  have h1: "(1::nat) \<le> 3" by simp
  have h2: "(3::nat) \<le> 2 ^ 53" by simp
  have h3: "length ?rs = 3" by simp
  have h4: "status (?rs ! 0) = 206" by (simp add: chunk_reply_def)
  have h5: "\<forall>k < 3. headers (?rs ! k) ''mex-chunk-range'' = Some (show_nat (k + 1) @ '':'' @ show_nat 3)"
    by (simp add: numeral_3_eq_3 less_Suc_eq chunk_reply_def show_nat_Suc_0 show_nat_Suc_Suc_0
        show_nat_Suc_Suc_Suc_0)
  have h5': "map (\<lambda>r. headers r ''mex-chunk-range'') ?rs
     = map (\<lambda>k. Some (show_nat (k + 1) @ '':'' @ show_nat 3)) [0, 1, 2]"
    by (simp add: chunk_reply_def show_nat_Suc_0 show_nat_2 show_nat_3 show_nat_Suc_Suc_0
        show_nat_Suc_Suc_Suc_0 numeral_3_eq_3)
  have h6: "map data ?rs = map JStr [''a'', ''b'', ''c'']"
    by (simp add: chunk_reply_def)
  note run = readMessage_multi_part [OF h1 h2 h3 h4 h5 h6, of sample_read sample_gen]
  have out: "fst (readMessage sample_read sample_gen (map Responded ?rs)) = Returned (Assembled 206 ''abc'')"
    unfolding run by simp
  have urls: "map req_url (issued (snd (readMessage sample_read sample_gen (map Responded ?rs))))
     = [''https://mesh.example/messageexchange/X26ABC1/inbox/M1'',
        ''https://mesh.example/messageexchange/X26ABC1/inbox/M1/2'',
        ''https://mesh.example/messageexchange/X26ABC1/inbox/M1/3'']"
    unfolding run
    by (simp add: sample_read_def numeral_3_eq_3 show_nat_Suc_Suc_0 show_nat_Suc_Suc_Suc_0)
  show ?thesis
    using h4 h5' h6 out urls by simp
qed

section \<open>Chunk ranges that are not well formed\<close>

text \<open>
  C7 does not hold as it is stated: the fields of the header go through
  \<^verbatim>\<open>Number\<close> and nothing checks them. With the header \<open>x:2\<close> the first field is
  \<open>NaN\<close>, the comparison is false, and \<open>readMessage\<close> returns the first body alone
  with status 206 and prints nothing; so it does with the header \<open>1:\<close>, whose empty
  second field becomes 0. With the header \<open>:2\<close> the empty first field becomes 0 and
  \<open>readMessage\<close> goes on to request chunk 1; with the header \<open>1e0:2\<close> it goes on to
  request chunk 2.
\<close>

theorem malformed_chunk_range_counterexample:
  "readMessage sample_read sample_gen [Responded (chunk_reply 206 ''x:2'' (JStr ''a''))] =
     (Returned (Assembled 206 ''a''),
      \<lparr>issued = [Get ''https://mesh.example/messageexchange/X26ABC1/inbox/M1''
                   (get_config sample_read (sample_gen 0))],
       calls = 1, logged = []\<rparr>) \<and>
   readMessage sample_read sample_gen [Responded (chunk_reply 206 ''1:'' (JStr ''a''))] =
     (Returned (Assembled 206 ''a''),
      \<lparr>issued = [Get ''https://mesh.example/messageexchange/X26ABC1/inbox/M1''
                   (get_config sample_read (sample_gen 0))],
       calls = 1, logged = []\<rparr>) \<and>
   chunk_range_fields '':2'' = (Fin 0, Fin 2) \<and>
   readMessage sample_read sample_gen [Responded (chunk_reply 206 '':2'' (JStr ''a''))] =
     (Pending,
      \<lparr>issued = [Get ''https://mesh.example/messageexchange/X26ABC1/inbox/M1''
                   (get_config sample_read (sample_gen 0)),
                 Get ''https://mesh.example/messageexchange/X26ABC1/inbox/M1/1''
                   (get_config sample_read (sample_gen 1))],
       calls = 2, logged = []\<rparr>) \<and>
   chunk_range_fields ''1e0:2'' = (Fin 1, Fin 2) \<and>
   readMessage sample_read sample_gen [Responded (chunk_reply 206 ''1e0:2'' (JStr ''a''))] =
     (Pending,
      \<lparr>issued = [Get ''https://mesh.example/messageexchange/X26ABC1/inbox/M1''
                   (get_config sample_read (sample_gen 0)),
                 Get ''https://mesh.example/messageexchange/X26ABC1/inbox/M1/2''
                   (get_config sample_read (sample_gen 1))],
       calls = 2, logged = []\<rparr>)"
  by (simp add: readMessage_def readLoop.simps read_step_def chunk_reply_def sample_read_def
      chunk_range_fields_examples chunk_range_fields_exponent number_to_string_examples Let_def
      del: js_succ.simps)

text \<open>
  C7, as amended. Take a response with status 206, first or later. When its body cannot
  be converted to a string, \<open>readMessage\<close> prints the \<^verbatim>\<open>TypeError\<close> and ends the
  process. Otherwise: when the response carries no \<^verbatim>\<open>mex-chunk-range\<close> header at
  all, \<open>readMessage\<close> ends with the fatal abort (the \<^verbatim>\<open>TypeError\<close> of
  \<^verbatim>\<open>split\<close> is printed and the process exits with code 1) and issues no further
  request. A header that is present is never refused, whatever its value: its two
  fields are converted by \<^verbatim>\<open>Number\<close> and compared; when the first is not less than
  the second, which is so as soon as one of them is \<open>NaN\<close> (a field that is not a
  number, or a second field that is missing), \<open>readMessage\<close> stops fetching and returns
  status 206 with the text assembled so far, the body of this response included, and
  prints nothing; when the first is less than the second, \<open>readMessage\<close> prints nothing
  and requests the chunk whose index is the first field plus 1, then goes on with the
  response to that request.
\<close>

theorem malformed_chunk_range:
  assumes "status r = 206"
  shows "(\<forall>e. to_string (data r) = Inl e \<longrightarrow>
            readLoop p gen acc r rest w
              = (Exited 1, w\<lparr>logged := logged w @ [ConsoleErrorObject e]\<rparr>)) \<and>
         (\<forall>body. to_string (data r) = Inr body \<and> headers r ''mex-chunk-range'' = None \<longrightarrow>
            readLoop p gen acc r rest w
              = (Exited 1,
                 w\<lparr>logged := logged w @
                    [ConsoleErrorObject
                       (OtherError ''Cannot read properties of undefined (reading 'split')'')]\<rparr>) \<and>
            readMessage p gen (Responded r # rest)
              = (Exited 1,
                 \<lparr>issued = [Get (url p @ ''/messageexchange/'' @ mailboxID p @ ''/inbox/'' @ messageID p)
                              (get_config p (gen 0))],
                  calls = 1,
                  logged = [ConsoleErrorObject
                              (OtherError ''Cannot read properties of undefined (reading 'split')'')]\<rparr>)) \<and>
         (\<forall>body v. to_string (data r) = Inr body \<and> headers r ''mex-chunk-range'' = Some v \<and>
              \<not> js_less (fst (chunk_range_fields v)) (snd (chunk_range_fields v)) \<longrightarrow>
            readLoop p gen acc r rest w = (Returned (Assembled 206 (acc @ body)), w) \<and>
            readMessage p gen (Responded r # rest)
              = (Returned (Assembled 206 body),
                 \<lparr>issued = [Get (url p @ ''/messageexchange/'' @ mailboxID p @ ''/inbox/'' @ messageID p)
                              (get_config p (gen 0))],
                  calls = 1, logged = []\<rparr>)) \<and>
         (\<forall>body v. to_string (data r) = Inr body \<and> headers r ''mex-chunk-range'' = Some v \<and>
              js_less (fst (chunk_range_fields v)) (snd (chunk_range_fields v)) \<longrightarrow>
            readLoop p gen acc r [] w
              = (Pending,
                 w\<lparr>calls := Suc (calls w),
                   issued := issued w @
                     [Get (url p @ ''/messageexchange/'' @ mailboxID p @ ''/inbox/'' @ messageID p
                           @ ''/'' @ number_to_string (js_succ (fst (chunk_range_fields v))))
                          (get_config p (gen (calls w)))]\<rparr>) \<and>
            (\<forall>r' rest'.
               readLoop p gen acc r (Responded r' # rest') w
                 = readLoop p gen (acc @ body) r' rest'
                     (w\<lparr>calls := Suc (calls w),
                        issued := issued w @
                          [Get (url p @ ''/messageexchange/'' @ mailboxID p @ ''/inbox/'' @ messageID p
                                @ ''/'' @ number_to_string (js_succ (fst (chunk_range_fields v))))
                               (get_config p (gen (calls w)))]\<rparr>))) \<and>
         (\<forall>v. fst (chunk_range_fields v) = NaN \<or> snd (chunk_range_fields v) = NaN \<longrightarrow>
            \<not> js_less (fst (chunk_range_fields v)) (snd (chunk_range_fields v)))"
proof (intro conjI allI impI)
  show "readLoop p gen acc r rest w = (Exited 1, w\<lparr>logged := logged w @ [ConsoleErrorObject e]\<rparr>)"
    if "to_string (data r) = Inl e" for e
    by (rule readLoop_done [OF read_step_throws [OF that]])
next
  fix body
  assume h: "to_string (data r) = Inr body \<and> headers r ''mex-chunk-range'' = None"
  then have s: "to_string (data r) = Inr body" and n: "headers r ''mex-chunk-range'' = None"
    by simp_all
  show "readLoop p gen acc r rest w
      = (Exited 1,
         w\<lparr>logged := logged w @
            [ConsoleErrorObject
               (OtherError ''Cannot read properties of undefined (reading 'split')'')]\<rparr>)"
    by (rule readLoop_done [OF read_step_no_header [OF s n]])
  show "readMessage p gen (Responded r # rest)
      = (Exited 1,
         \<lparr>issued = [Get (url p @ ''/messageexchange/'' @ mailboxID p @ ''/inbox/'' @ messageID p)
                      (get_config p (gen 0))],
          calls = 1,
          logged = [ConsoleErrorObject
                      (OtherError ''Cannot read properties of undefined (reading 'split')'')]\<rparr>)"
    unfolding readMessage_206 [OF assms] readLoop_done [OF read_step_no_header [OF s n]]
    by simp
next
  fix body v
  assume h: "to_string (data r) = Inr body \<and> headers r ''mex-chunk-range'' = Some v \<and>
      \<not> js_less (fst (chunk_range_fields v)) (snd (chunk_range_fields v))"
  then have s: "to_string (data r) = Inr body" and v: "headers r ''mex-chunk-range'' = Some v"
    and l: "\<not> js_less (fst (chunk_range_fields v)) (snd (chunk_range_fields v))"
    by simp_all
  show "readLoop p gen acc r rest w = (Returned (Assembled 206 (acc @ body)), w)"
    by (rule readLoop_done [OF read_step_not_less [OF s v l]])
  show "readMessage p gen (Responded r # rest)
      = (Returned (Assembled 206 body),
         \<lparr>issued = [Get (url p @ ''/messageexchange/'' @ mailboxID p @ ''/inbox/'' @ messageID p)
                      (get_config p (gen 0))],
          calls = 1, logged = []\<rparr>)"
    unfolding readMessage_206 [OF assms] readLoop_done [OF read_step_not_less [OF s v l]]
    by simp
next
  fix body v
  assume h: "to_string (data r) = Inr body \<and> headers r ''mex-chunk-range'' = Some v \<and>
      js_less (fst (chunk_range_fields v)) (snd (chunk_range_fields v))"
  then have s: "to_string (data r) = Inr body" and v: "headers r ''mex-chunk-range'' = Some v"
    and l: "js_less (fst (chunk_range_fields v)) (snd (chunk_range_fields v))"
    by simp_all
  note step = read_step_less [OF s v l, of p gen acc w]
  show "readLoop p gen acc r [] w
      = (Pending,
         w\<lparr>calls := Suc (calls w),
           issued := issued w @
             [Get (url p @ ''/messageexchange/'' @ mailboxID p @ ''/inbox/'' @ messageID p
                   @ ''/'' @ number_to_string (js_succ (fst (chunk_range_fields v))))
                  (get_config p (gen (calls w)))]\<rparr>)"
    by (rule readLoop_no_reply [OF step])
  show "readLoop p gen acc r (Responded r' # rest') w
         = readLoop p gen (acc @ body) r' rest'
             (w\<lparr>calls := Suc (calls w),
                issued := issued w @
                  [Get (url p @ ''/messageexchange/'' @ mailboxID p @ ''/inbox/'' @ messageID p
                        @ ''/'' @ number_to_string (js_succ (fst (chunk_range_fields v))))
                       (get_config p (gen (calls w)))]\<rparr>)" for r' rest'
    by (rule readLoop_goes_on [OF step])
next
  fix v
  assume "fst (chunk_range_fields v) = NaN \<or> snd (chunk_range_fields v) = NaN"
  then show "\<not> js_less (fst (chunk_range_fields v)) (snd (chunk_range_fields v))"
    using js_less_NaN by auto
qed

text \<open>
  The hypotheses of C7 hold for a first response whose body cannot be converted, for one
  with no header, for one with the header \<open>x:2\<close> and for one with the header \<open>1:2\<close>.
\<close>

theorem malformed_chunk_range_witness:
  "status (chunk_reply 206 ''1:1'' (JObj [(''toString'', JStr ''x'')])) = 206 \<and>
   to_string (data (chunk_reply 206 ''1:1'' (JObj [(''toString'', JStr ''x'')])))
     = Inl (OtherError ''Cannot convert object to primitive value'') \<and>
   readLoop sample_read sample_gen [] (chunk_reply 206 ''1:1'' (JObj [(''toString'', JStr ''x'')])) []
       \<lparr>issued = [], calls = 0, logged = []\<rparr>
     = (Exited 1,
        \<lparr>issued = [], calls = 0,
         logged = [ConsoleErrorObject (OtherError ''Cannot convert object to primitive value'')]\<rparr>) \<and>
   status (reply_with 206 (JStr ''a'')) = 206 \<and>
   to_string (data (reply_with 206 (JStr ''a''))) = Inr ''a'' \<and>
   headers (reply_with 206 (JStr ''a'')) ''mex-chunk-range'' = None \<and>
   fst (readMessage sample_read sample_gen (Responded (reply_with 206 (JStr ''a'')) # [])) = Exited 1 \<and>
   logged (snd (readMessage sample_read sample_gen (Responded (reply_with 206 (JStr ''a'')) # [])))
     = [ConsoleErrorObject (OtherError ''Cannot read properties of undefined (reading 'split')'')] \<and>
   status (chunk_reply 206 ''x:2'' (JStr ''a'')) = 206 \<and>
   to_string (data (chunk_reply 206 ''x:2'' (JStr ''a''))) = Inr ''a'' \<and>
   headers (chunk_reply 206 ''x:2'' (JStr ''a'')) ''mex-chunk-range'' = Some ''x:2'' \<and>
   fst (chunk_range_fields ''x:2'') = NaN \<and>
   \<not> js_less (fst (chunk_range_fields ''x:2'')) (snd (chunk_range_fields ''x:2'')) \<and>
   fst (readMessage sample_read sample_gen (Responded (chunk_reply 206 ''x:2'' (JStr ''a'')) # []))
     = Returned (Assembled 206 ''a'') \<and>
   logged (snd (readMessage sample_read sample_gen (Responded (chunk_reply 206 ''x:2'' (JStr ''a'')) # [])))
     = [] \<and>
   status (chunk_reply 206 ''1:2'' (JStr ''a'')) = 206 \<and>
   to_string (data (chunk_reply 206 ''1:2'' (JStr ''a''))) = Inr ''a'' \<and>
   headers (chunk_reply 206 ''1:2'' (JStr ''a'')) ''mex-chunk-range'' = Some ''1:2'' \<and>
   js_less (fst (chunk_range_fields ''1:2'')) (snd (chunk_range_fields ''1:2'')) \<and>
   fst (readLoop sample_read sample_gen [] (chunk_reply 206 ''1:2'' (JStr ''a'')) []
       \<lparr>issued = [], calls = 0, logged = []\<rparr>) = Pending \<and>
   map req_url (issued (snd (readLoop sample_read sample_gen [] (chunk_reply 206 ''1:2'' (JStr ''a'')) []
       \<lparr>issued = [], calls = 0, logged = []\<rparr>)))
     = [''https://mesh.example/messageexchange/X26ABC1/inbox/M1/2'']"
proof -
  let ?w0 = "\<lparr>issued = [], calls = 0, logged = []\<rparr>"
  let ?r1 = "chunk_reply 206 ''1:1'' (JObj [(''toString'', JStr ''x'')])"
  let ?r2 = "reply_with 206 (JStr ''a'')"
  let ?r3 = "chunk_reply 206 ''x:2'' (JStr ''a'')"
  let ?r4 = "chunk_reply 206 ''1:2'' (JStr ''a'')"
  have s1: "status ?r1 = 206" and s2: "status ?r2 = 206" and s3: "status ?r3 = 206"
    and s4: "status ?r4 = 206"
    by (simp_all add: chunk_reply_def reply_with_def)
  have b1: "to_string (data ?r1) = Inl (OtherError ''Cannot convert object to primitive value'')"
    and b2: "to_string (data ?r2) = Inr ''a''" and h2: "headers ?r2 ''mex-chunk-range'' = None"
    and b3: "to_string (data ?r3) = Inr ''a''" and h3: "headers ?r3 ''mex-chunk-range'' = Some ''x:2''"
    and b4: "to_string (data ?r4) = Inr ''a''" and h4: "headers ?r4 ''mex-chunk-range'' = Some ''1:2''"
    by (simp_all add: chunk_reply_def reply_with_def)
  have f3: "fst (chunk_range_fields ''x:2'') = NaN"
    and l3: "\<not> js_less (fst (chunk_range_fields ''x:2'')) (snd (chunk_range_fields ''x:2''))"
    and l4: "js_less (fst (chunk_range_fields ''1:2'')) (snd (chunk_range_fields ''1:2''))"
    by (simp_all add: chunk_range_fields_examples)
  from malformed_chunk_range [OF s1, of sample_read sample_gen "[]" "[]" ?w0] b1
  have c1: "readLoop sample_read sample_gen [] ?r1 [] ?w0
     = (Exited 1,
        \<lparr>issued = [], calls = 0,
         logged = [ConsoleErrorObject (OtherError ''Cannot convert object to primitive value'')]\<rparr>)"
    by simp
  from malformed_chunk_range [OF s2, of sample_read sample_gen "[]" "[]" ?w0] b2 h2
  have c2: "fst (readMessage sample_read sample_gen (Responded ?r2 # [])) = Exited 1"
    "logged (snd (readMessage sample_read sample_gen (Responded ?r2 # [])))
     = [ConsoleErrorObject (OtherError ''Cannot read properties of undefined (reading 'split')'')]"
    by simp_all
  from malformed_chunk_range [OF s3, of sample_read sample_gen "[]" "[]" ?w0] b3 h3 l3
  have c3: "fst (readMessage sample_read sample_gen (Responded ?r3 # [])) = Returned (Assembled 206 ''a'')"
    "logged (snd (readMessage sample_read sample_gen (Responded ?r3 # []))) = []"
    by simp_all
  from malformed_chunk_range [OF s4, of sample_read sample_gen "[]" "[]" ?w0] b4 h4 l4
  have c4: "readLoop sample_read sample_gen [] ?r4 [] ?w0
      = (Pending,
         ?w0\<lparr>calls := Suc (calls ?w0),
           issued := issued ?w0 @
             [Get (url sample_read @ ''/messageexchange/'' @ mailboxID sample_read @ ''/inbox/''
                   @ messageID sample_read
                   @ ''/'' @ number_to_string (js_succ (fst (chunk_range_fields ''1:2''))))
                  (get_config sample_read (sample_gen (calls ?w0)))]\<rparr>)"
    by simp
  have c4': "fst (readLoop sample_read sample_gen [] ?r4 [] ?w0) = Pending"
    "map req_url (issued (snd (readLoop sample_read sample_gen [] ?r4 [] ?w0)))
     = [''https://mesh.example/messageexchange/X26ABC1/inbox/M1/2'']"
    unfolding c4
    by (simp_all add: chunk_range_fields_examples number_to_string_examples sample_read_def
        del: js_succ.simps)
  show ?thesis
    by (intro conjI s1 s2 s3 s4 b1 b2 b3 b4 h2 h3 h4 f3 l3 l4 c1 c2 c3 c4')
qed

section \<open>The empty payload\<close>

text \<open>
  C10. For the empty payload \<open>splitIntoChunks\<close> returns no chunk at all (not one
  empty chunk), so \<open>sendChunkedMessage\<close> on an empty \<open>fileContent\<close> issues no
  request, whatever the replies would be, and returns the initial result
  \<^verbatim>\<open>{status: null, data: null}\<close>.
\<close>

theorem sendChunkedMessage_empty:
  "splitIntoChunks [] = [] \<and>
   sendChunkedMessage (p\<lparr>fileContent := []\<rparr>) gen replies =
     (Returned \<lparr>result_status = None, result_data = JNull\<rparr>,
      \<lparr>issued = [], calls = 0, logged = []\<rparr>)"
  by (simp add: sendChunkedMessage_def splitIntoChunks_def splitIntoChunks_loop_done)

end
